theory Spec2Isabelle
  imports Complex_Main "HOL-Library.Log_Nat"
begin

section \<open>Double-precision values\<close>

text \<open>
  The five data members of \<^verbatim>\<open>RRBotModularJoint\<close> that the callbacks compute with are C++
  \<^verbatim>\<open>double\<close>s. A double is modelled by its value: \<open>Num s m\<close> is the finite double of sign
  \<open>s\<close> (\<open>True\<close> for negative) and magnitude \<open>m \<ge> 0\<close>, so that \<open>Num False 0\<close> and
  \<open>Num True 0\<close> are the two zeros; \<open>Infty s\<close> is the infinity of sign \<open>s\<close>; \<open>NaN\<close> is
  \<^verbatim>\<open>std::numeric_limits<double>::quiet_NaN()\<close> (NaN payloads are not distinguished).
\<close>

datatype double = Num bool real | Infty bool | NaN

definition sval :: "bool \<Rightarrow> real \<Rightarrow> real" where
  "sval s m = (if s then - m else m)"

text \<open>
  Rounding to binary64, round-to-nearest, ties to even. \<open>ilog2 x\<close> is the binary exponent
  \<open>\<lfloor>log\<^sub>2 x\<rfloor>\<close> of a positive \<open>x\<close>, computed on integers. The spacing of the doubles around
  \<open>x\<close> is \<open>quantum x\<close>: 52 fraction bits below the exponent, and the fixed spacing
  \<open>2\<^sup>-\<^sup>1\<^sup>0\<^sup>7\<^sup>4\<close> in the subnormal range. A result that rounds to \<open>2\<^sup>1\<^sup>0\<^sup>2\<^sup>4\<close> or more overflows
  to infinity.
\<close>

definition ilog2 :: "real \<Rightarrow> int" where
  "ilog2 x = (if 1 \<le> x then int (floorlog 2 (nat \<lfloor>x\<rfloor>)) - 1
              else - int (floorlog 2 (nat \<lceil>1 / x\<rceil> - 1)))"

definition quantum :: "real \<Rightarrow> real" where
  "quantum x = 2 powi (max (ilog2 x) (- 1022) - 52)"

definition round_half_even :: "real \<Rightarrow> int" where
  "round_half_even y =
     (let f = \<lfloor>y\<rfloor>; r = y - of_int f
      in if r < 1 / 2 then f else if 1 / 2 < r then f + 1
         else if even f then f else f + 1)"

definition round_mag :: "real \<Rightarrow> real" where
  "round_mag x = of_int (round_half_even (x / quantum x)) * quantum x"

definition round_double :: "bool \<Rightarrow> real \<Rightarrow> double" where
  "round_double s x = (let r = round_mag x in if 2 ^ 1024 \<le> r then Infty s else Num s r)"

text \<open>
  The magnitudes of the finite doubles are the values below \<open>2\<^sup>1\<^sup>0\<^sup>2\<^sup>4\<close> that rounding
  leaves alone.
\<close>

definition representable :: "real \<Rightarrow> bool" where
  "representable m \<longleftrightarrow> 0 \<le> m \<and> m < 2 ^ 1024 \<and> round_mag m = m"

fun valid_double :: "double \<Rightarrow> bool" where
  "valid_double (Num s m) = representable m"
| "valid_double (Infty s) = True"
| "valid_double NaN = True"

fun isnan :: "double \<Rightarrow> bool" where
  "isnan NaN = True"
| "isnan (Num s m) = False"
| "isnan (Infty s) = False"

fun isfinite :: "double \<Rightarrow> bool" where
  "isfinite (Num s m) = True"
| "isfinite (Infty s) = False"
| "isfinite NaN = False"

text \<open>The real number a finite double stands for (\<open>0\<close> where there is none).\<close>

fun val :: "double \<Rightarrow> real" where
  "val (Num s m) = sval s m"
| "val (Infty s) = 0"
| "val NaN = 0"

text \<open>
  The arithmetic of the source: unary minus, \<^verbatim>\<open>+\<close>, \<^verbatim>\<open>-\<close>, \<^verbatim>\<open>/\<close>, and the comparisons
  \<^verbatim>\<open><\<close>, \<^verbatim>\<open>==\<close>. An exact zero sum is \<open>+0\<close> unless both operands are negative zeros; a
  quotient has the exclusive-or of the signs; \<open>\<infinity> - \<infinity>\<close>, \<open>0 / 0\<close>, \<open>\<infinity> / \<infinity>\<close> and
  every operation on a NaN give NaN; every comparison with a NaN is false.
\<close>

fun dneg :: "double \<Rightarrow> double" where
  "dneg (Num s m) = Num (\<not> s) m"
| "dneg (Infty s) = Infty (\<not> s)"
| "dneg NaN = NaN"

fun dadd :: "double \<Rightarrow> double \<Rightarrow> double" where
  "dadd NaN y = NaN"
| "dadd x NaN = NaN"
| "dadd (Infty s) (Infty t) = (if s = t then Infty s else NaN)"
| "dadd (Infty s) (Num t b) = Infty s"
| "dadd (Num s a) (Infty t) = Infty t"
| "dadd (Num s a) (Num t b) =
     (let v = sval s a + sval t b
      in if v = 0 then Num (s \<and> t) 0 else round_double (v < 0) \<bar>v\<bar>)"

definition dsub :: "double \<Rightarrow> double \<Rightarrow> double" where
  "dsub x y = dadd x (dneg y)"

fun ddiv :: "double \<Rightarrow> double \<Rightarrow> double" where
  "ddiv NaN y = NaN"
| "ddiv x NaN = NaN"
| "ddiv (Infty s) (Infty t) = NaN"
| "ddiv (Infty s) (Num t b) = Infty (s \<noteq> t)"
| "ddiv (Num s a) (Infty t) = Num (s \<noteq> t) 0"
| "ddiv (Num s a) (Num t b) =
     (if b = 0 then (if a = 0 then NaN else Infty (s \<noteq> t))
      else round_double (s \<noteq> t) (a / b))"

fun dlt :: "double \<Rightarrow> double \<Rightarrow> bool" where
  "dlt NaN y = False"
| "dlt x NaN = False"
| "dlt (Num s a) (Num t b) = (sval s a < sval t b)"
| "dlt (Num s a) (Infty t) = (\<not> t)"
| "dlt (Infty s) (Num t b) = s"
| "dlt (Infty s) (Infty t) = (s \<and> \<not> t)"

fun deq :: "double \<Rightarrow> double \<Rightarrow> bool" where
  "deq NaN y = False"
| "deq x NaN = False"
| "deq (Num s a) (Num t b) = (sval s a = sval t b)"
| "deq (Num s a) (Infty t) = False"
| "deq (Infty s) (Num t b) = False"
| "deq (Infty s) (Infty t) = (s = t)"

text \<open>
  The loop counters are \<^verbatim>\<open>int\<close>, 32 bits wide. Every \<^verbatim>\<open>int\<close> is a double, so the
  conversion in \<^verbatim>\<open>i < hw_start_sec_\<close> and \<^verbatim>\<open>hw_start_sec_ - i\<close> is exact.
\<close>

definition INT_MAX :: int where
  "INT_MAX = 2147483647"

definition double_of_int :: "int \<Rightarrow> double" where
  "double_of_int i = Num (i < 0) \<bar>of_int i\<bar>"

section \<open>The hardware description and the actuator object\<close>

text \<open>
  \<^verbatim>\<open>hardware_interface::HardwareInfo\<close>, \<^verbatim>\<open>ComponentInfo\<close> and \<^verbatim>\<open>InterfaceInfo\<close> belong to
  the host framework; only the members that \<^verbatim>\<open>rrbot_actuator.cpp\<close> reads are kept.
  \<^verbatim>\<open>hardware_parameters\<close> is an \<^verbatim>\<open>unordered_map<string, string>\<close>. The data members of the
  class are declared in \<^verbatim>\<open>rrbot_actuator.hpp\<close>; the five \<^verbatim>\<open>hw_\<close> members are doubles, as
  their uses show (\<^verbatim>\<open>stod\<close>, \<^verbatim>\<open>quiet_NaN\<close>, \<^verbatim>\<open>std::isnan\<close>, \<^verbatim>\<open>%.1f\<close>). Their names end in an
  underscore in the source (\<^verbatim>\<open>info_\<close>, \<^verbatim>\<open>hw_start_sec_\<close>, ...), which is not a legal name
  here, so the underscore is dropped.
\<close>

record InterfaceInfo =
  name :: string

record ComponentInfo =
  name :: string
  command_interfaces :: "InterfaceInfo list"
  state_interfaces :: "InterfaceInfo list"

record HardwareInfo =
  hardware_parameters :: "string \<rightharpoonup> string"
  joints :: "ComponentInfo list"

record RRBotModularJoint =
  info :: HardwareInfo
  hw_start_sec :: double
  hw_stop_sec :: double
  hw_slowdown :: double
  hw_joint_state :: double
  hw_joint_command :: double

datatype return_type = OK | ERROR

datatype CallbackReturn = SUCCESS | FAILURE | ERROR

definition HW_IF_POSITION :: string where
  "HW_IF_POSITION = ''position''"

text \<open>
  What a callback does besides returning: the log lines (format string and arguments, as
  handed to \<^verbatim>\<open>RCLCPP_INFO\<close> and \<^verbatim>\<open>RCLCPP_FATAL\<close>) and the calls of
  \<^verbatim>\<open>rclcpp::sleep_for(std::chrono::seconds(n))\<close>, in order.
\<close>

datatype log_arg = Str string | Dbl double | Size nat

datatype event = LogInfo string "log_arg list" | LogFatal string "log_arg list" | SleepFor nat

text \<open>
  The ways a callback can fail to return: \<^verbatim>\<open>std::stod\<close> throws, \<^verbatim>\<open>joints[0]\<close> is read
  from an empty vector, the \<^verbatim>\<open>int\<close> counter of a countdown is incremented at
  \<^verbatim>\<open>INT_MAX\<close>. The last two are undefined behaviour.
\<close>

datatype failure = StodException | VectorOutOfRange | SignedOverflow

type_synonym 'r outcome = "failure + ('r \<times> RRBotModularJoint \<times> event list)"

text \<open>
  An exported interface: the joint's name, the interface's name, and which data member
  the handle points to (\<^verbatim>\<open>&hw_joint_state_\<close> or \<^verbatim>\<open>&hw_joint_command_\<close>).
\<close>

datatype member = Hw_joint_state | Hw_joint_command

record Handle =
  joint_name :: string
  interface_name :: string
  value_ptr :: member

type_synonym StateInterface = Handle
type_synonym CommandInterface = Handle

section \<open>The callbacks\<close>

text \<open>
  \<^verbatim>\<open>info_.hardware_parameters[key]\<close>: \<^verbatim>\<open>operator[]\<close> of a non-const map returns the
  stored string, and stores and returns the empty string when the key is absent.
\<close>

definition index_parameters :: "RRBotModularJoint \<Rightarrow> string \<Rightarrow> string \<times> RRBotModularJoint" where
  "index_parameters this key =
     (case hardware_parameters (info this) key of
        Some v \<Rightarrow> (v, this)
      | None \<Rightarrow>
          ('''', this\<lparr>info := (info this)\<lparr>hardware_parameters :=
                        (hardware_parameters (info this))(key \<mapsto> '''')\<rparr>\<rparr>))"

text \<open>
  \<^verbatim>\<open>stod(info_.hardware_parameters[key])\<close>. \<^verbatim>\<open>std::stod\<close> is a parameter of the model:
  \<open>None\<close> when it throws (\<^verbatim>\<open>std::invalid_argument\<close>, \<^verbatim>\<open>std::out_of_range\<close>).
\<close>

definition get_parameter ::
  "(string \<Rightarrow> double option) \<Rightarrow> RRBotModularJoint \<Rightarrow> string \<Rightarrow>
   failure + (double \<times> RRBotModularJoint)" where
  "get_parameter stod this key =
     (case index_parameters this key of (str, this') \<Rightarrow>
      case stod str of None \<Rightarrow> Inl StodException | Some d \<Rightarrow> Inr (d, this'))"

text \<open>
  \<^verbatim>\<open>on_init\<close>. The call of the base class, \<^verbatim>\<open>hardware_interface::ActuatorInterface::on_init\<close>,
  is the parameter \<open>base_on_init\<close>: it returns a \<^verbatim>\<open>CallbackReturn\<close> and may change the
  object (the framework's stores the description in \<^verbatim>\<open>info_\<close>).
\<close>

definition on_init ::
  "(RRBotModularJoint \<Rightarrow> HardwareInfo \<Rightarrow> CallbackReturn \<times> RRBotModularJoint) \<Rightarrow>
   (string \<Rightarrow> double option) \<Rightarrow> RRBotModularJoint \<Rightarrow> HardwareInfo \<Rightarrow> CallbackReturn outcome" where
  "on_init base_on_init stod this hw_info =
     (case base_on_init this hw_info of (r, this0) \<Rightarrow>
      if r \<noteq> SUCCESS then Inr (ERROR, this0, [])
      else
      case get_parameter stod this0 ''example_param_hw_start_duration_sec'' of
        Inl e \<Rightarrow> Inl e
      | Inr (start, this1) \<Rightarrow>
      case get_parameter stod (this1\<lparr>hw_start_sec := start\<rparr>)
             ''example_param_hw_stop_duration_sec'' of
        Inl e \<Rightarrow> Inl e
      | Inr (stop, this2) \<Rightarrow>
      case get_parameter stod (this2\<lparr>hw_stop_sec := stop\<rparr>) ''example_param_hw_slowdown'' of
        Inl e \<Rightarrow> Inl e
      | Inr (slowdown, this3) \<Rightarrow>
      let this4 = this3\<lparr>hw_slowdown := slowdown, hw_joint_state := NaN, hw_joint_command := NaN\<rparr>
      in case joints (info this4) of
        [] \<Rightarrow> Inl VectorOutOfRange
      | joint # _ \<Rightarrow>
          if length (command_interfaces joint) \<noteq> 1 then
            Inr (ERROR, this4,
              [LogFatal ''Joint '%s' has %zu command interfaces found. 1 expected.''
                 [Str (ComponentInfo.name joint), Size (length (command_interfaces joint))]])
          else if InterfaceInfo.name (command_interfaces joint ! 0) \<noteq> HW_IF_POSITION then
            Inr (ERROR, this4,
              [LogFatal ''Joint '%s' have %s command interfaces found. '%s' expected.''
                 [Str (ComponentInfo.name joint),
                  Str (InterfaceInfo.name (command_interfaces joint ! 0)), Str HW_IF_POSITION]])
          else if length (state_interfaces joint) \<noteq> 1 then
            Inr (ERROR, this4,
              [LogFatal ''Joint '%s' has %zu state interface. 1 expected.''
                 [Str (ComponentInfo.name joint), Size (length (state_interfaces joint))]])
          else if InterfaceInfo.name (state_interfaces joint ! 0) \<noteq> HW_IF_POSITION then
            Inr (ERROR, this4,
              [LogFatal ''Joint '%s' have %s state interface. '%s' expected.''
                 [Str (ComponentInfo.name joint),
                  Str (InterfaceInfo.name (state_interfaces joint ! 0)), Str HW_IF_POSITION]])
          else Inr (SUCCESS, this4, []))"

definition export_state_interfaces :: "RRBotModularJoint \<Rightarrow> failure + StateInterface list" where
  "export_state_interfaces this =
     (case joints (info this) of
        [] \<Rightarrow> Inl VectorOutOfRange
      | joint # _ \<Rightarrow>
          Inr ([] @ [\<lparr>joint_name = ComponentInfo.name joint, interface_name = HW_IF_POSITION,
                      value_ptr = Hw_joint_state\<rparr>]))"

definition export_command_interfaces :: "RRBotModularJoint \<Rightarrow> failure + CommandInterface list" where
  "export_command_interfaces this =
     (case joints (info this) of
        [] \<Rightarrow> Inl VectorOutOfRange
      | joint # _ \<Rightarrow>
          Inr ([] @ [\<lparr>joint_name = ComponentInfo.name joint, interface_name = HW_IF_POSITION,
                      value_ptr = Hw_joint_command\<rparr>]))"

text \<open>
  The countdown of \<^verbatim>\<open>on_activate\<close> and \<^verbatim>\<open>on_deactivate\<close>,
  \<^verbatim>\<open>for (int i = 0; i < secs; i++) { sleep_for(seconds(1)); RCLCPP_INFO(..., secs - i); }\<close>,
  from the counter value \<open>i\<close> on, appending to the events so far. The body runs, and then
  \<^verbatim>\<open>i++\<close>, which has no defined result at \<^verbatim>\<open>INT_MAX\<close>. (Where the counter wraps to
  \<^verbatim>\<open>INT_MIN\<close> instead, the condition that held at \<^verbatim>\<open>INT_MAX\<close> holds for every \<^verbatim>\<open>int\<close>, and
  the loop does not end either.)
\<close>

definition countdown_body :: "double \<Rightarrow> int \<Rightarrow> event list" where
  "countdown_body secs i =
     [SleepFor 1, LogInfo ''%.1f seconds left...'' [Dbl (dsub secs (double_of_int i))]]"

function countdown :: "double \<Rightarrow> int \<Rightarrow> event list \<Rightarrow> failure + event list" where
  "countdown secs i evs =
     (if dlt (double_of_int i) secs then
        (if INT_MAX \<le> i then Inl SignedOverflow
         else countdown secs (i + 1) (evs @ countdown_body secs i))
      else Inr evs)"
  by pat_completeness auto
termination
  by (relation "measure (\<lambda>(secs, i, evs). nat (INT_MAX - i))") auto

declare countdown.simps [simp del]

text \<open>The lifecycle state handed to the two callbacks is unused and left out.\<close>

definition on_activate :: "RRBotModularJoint \<Rightarrow> CallbackReturn outcome" where
  "on_activate this =
     (case countdown (hw_start_sec this) 0 [LogInfo ''Starting ...please wait...'' []] of
        Inl e \<Rightarrow> Inl e
      | Inr evs \<Rightarrow>
          Inr (SUCCESS,
               (if isnan (hw_joint_state this)
                then this\<lparr>hw_joint_state := Num False 0, hw_joint_command := Num False 0\<rparr>
                else this),
               evs @ [LogInfo ''System Successfully started!'' []]))"

definition on_deactivate :: "RRBotModularJoint \<Rightarrow> CallbackReturn outcome" where
  "on_deactivate this =
     (case countdown (hw_stop_sec this) 0 [LogInfo ''Stopping ...please wait...'' []] of
        Inl e \<Rightarrow> Inl e
      | Inr evs \<Rightarrow> Inr (SUCCESS, this, evs @ [LogInfo ''System successfully stopped!'' []]))"

definition read :: "RRBotModularJoint \<Rightarrow> return_type outcome" where
  "read this =
     (let this' = this\<lparr>hw_joint_state :=
            dadd (hw_joint_state this)
                 (ddiv (dsub (hw_joint_command this) (hw_joint_state this)) (hw_slowdown this))\<rparr>
      in case joints (info this') of
        [] \<Rightarrow> Inl VectorOutOfRange
      | joint # _ \<Rightarrow>
          Inr (OK, this',
               [LogInfo ''Reading...'' [],
                LogInfo ''Got state %.5f for joint '%s'!''
                  [Dbl (hw_joint_state this'), Str (ComponentInfo.name joint)],
                LogInfo ''Joints successfully read!'' []]))"

text \<open>\<^verbatim>\<open>write\<close> is a reserved word here, hence \<open>write_hw\<close>.\<close>

definition write_hw :: "RRBotModularJoint \<Rightarrow> return_type outcome" where
  "write_hw this =
     (case joints (info this) of
        [] \<Rightarrow> Inl VectorOutOfRange
      | joint # _ \<Rightarrow>
          Inr (OK, this,
               [LogInfo ''Writing...please wait...'' [],
                LogInfo ''Got command %.5f for joint '%s'!''
                  [Dbl (hw_joint_command this), Str (ComponentInfo.name joint)],
                LogInfo ''Joints successfully written!'' []]))"

section \<open>Notions used to state the properties\<close>

text \<open>What a call returned, the object it left and the events it caused, when it returned.\<close>

definition returned :: "'r outcome \<Rightarrow> 'r option" where
  "returned out = (case out of Inl e \<Rightarrow> None | Inr (r, this, evs) \<Rightarrow> Some r)"

definition object_after :: "'r outcome \<Rightarrow> RRBotModularJoint option" where
  "object_after out = (case out of Inl e \<Rightarrow> None | Inr (r, this, evs) \<Rightarrow> Some this)"

definition events_of :: "'r outcome \<Rightarrow> event list" where
  "events_of out = (case out of Inl e \<Rightarrow> [] | Inr (r, this, evs) \<Rightarrow> evs)"

fun is_log :: "event \<Rightarrow> bool" where
  "is_log (LogInfo f as) = True"
| "is_log (LogFatal f as) = True"
| "is_log (SleepFor n) = False"

fun is_fatal :: "event \<Rightarrow> bool" where
  "is_fatal (LogFatal f as) = True"
| "is_fatal (LogInfo f as) = False"
| "is_fatal (SleepFor n) = False"

text \<open>The string that \<^verbatim>\<open>info_.hardware_parameters[key]\<close> hands to \<^verbatim>\<open>stod\<close>.\<close>

definition parameter_string :: "HardwareInfo \<Rightarrow> string \<Rightarrow> string" where
  "parameter_string hw key = (case hardware_parameters hw key of Some v \<Rightarrow> v | None \<Rightarrow> '''')"

definition parameters_parse :: "(string \<Rightarrow> double option) \<Rightarrow> HardwareInfo \<Rightarrow> bool" where
  "parameters_parse stod hw \<longleftrightarrow>
     stod (parameter_string hw ''example_param_hw_start_duration_sec'') \<noteq> None \<and>
     stod (parameter_string hw ''example_param_hw_stop_duration_sec'') \<noteq> None \<and>
     stod (parameter_string hw ''example_param_hw_slowdown'') \<noteq> None"

text \<open>
  The shape the specification asks of the joint, in its words: exactly one command
  interface and one state interface, both of kind "position".
\<close>

definition spec_interface_shape :: "ComponentInfo \<Rightarrow> bool" where
  "spec_interface_shape joint \<longleftrightarrow>
     length (command_interfaces joint) = 1 \<and> length (state_interfaces joint) = 1 \<and>
     list_all (\<lambda>i. InterfaceInfo.name i = ''position'')
       (command_interfaces joint @ state_interfaces joint)"

text \<open>
  The number of times the body of a countdown runs when the counter does not overflow:
  the number of \<^verbatim>\<open>int\<close>s \<open>i \<ge> 0\<close> with \<^verbatim>\<open>i < secs\<close>.
\<close>

fun iterations :: "double \<Rightarrow> nat" where
  "iterations (Num s m) = nat \<lceil>sval s m\<rceil>"
| "iterations (Infty s) = 0"
| "iterations NaN = 0"

text \<open>
  A countdown reaches \<^verbatim>\<open>i++\<close> at \<^verbatim>\<open>INT_MAX\<close> exactly when \<^verbatim>\<open>INT_MAX < secs\<close>.
\<close>

definition overflows :: "double \<Rightarrow> bool" where
  "overflows secs \<longleftrightarrow> dlt (double_of_int INT_MAX) secs"

definition countdown_events :: "double \<Rightarrow> nat \<Rightarrow> event list" where
  "countdown_events secs n = concat (map (\<lambda>i. countdown_body secs (int i)) [0..<n])"

text \<open>The joint state a call left, when it returned.\<close>

definition state_after :: "'r outcome \<Rightarrow> double option" where
  "state_after out = map_option hw_joint_state (object_after out)"

text \<open>
  An operation is exact when its result is the finite double that stands for the real
  result \<open>x\<close>: nothing was rounded and nothing overflowed.
\<close>

definition exact :: "double \<Rightarrow> real \<Rightarrow> bool" where
  "exact r x \<longleftrightarrow> isfinite r \<and> val r = x"

text \<open>
  Rounding a real number of either sign: what an operation makes of its real result
  when it does not overflow.
\<close>

definition rnd :: "real \<Rightarrow> real" where
  "rnd v = (if v < 0 then - round_mag (- v) else round_mag v)"

text \<open>The smallest positive double, \<^verbatim>\<open>std::numeric_limits<double>::denorm_min()\<close>.\<close>

definition denorm_min :: real where
  "denorm_min = 2 powi (- 1074)"

text \<open>A large double: twice its value is beyond the largest finite double.\<close>

definition huge :: real where
  "huge = 2 ^ 1023"

text \<open>The one-second sleeps and the countdown log lines among some events.\<close>

definition sleeps :: "event list \<Rightarrow> nat" where
  "sleeps evs = length (filter (\<lambda>e. e = SleepFor 1) evs)"

definition countdown_logs :: "event list \<Rightarrow> nat" where
  "countdown_logs evs =
     length (filter (\<lambda>e. case e of LogInfo f as \<Rightarrow> f = ''%.1f seconds left...'' | _ \<Rightarrow> False)
               evs)"

section \<open>Example objects\<close>

text \<open>
  The base-class call as the framework implements it, \<^verbatim>\<open>std::stod\<close> on the few strings
  the examples use, and a description of one joint with a position command interface and
  a position state interface.
\<close>

definition framework_on_init ::
  "RRBotModularJoint \<Rightarrow> HardwareInfo \<Rightarrow> CallbackReturn \<times> RRBotModularJoint" where
  "framework_on_init this hw_info = (SUCCESS, this\<lparr>info := hw_info\<rparr>)"

definition stod_example :: "string \<Rightarrow> double option" where
  "stod_example str =
     (if str = ''0'' then Some (Num False 0)
      else if str = ''2.0'' then Some (Num False 2)
      else if str = ''3.0'' then Some (Num False 3)
      else if str = ''nan'' then Some NaN
      else None)"

definition position_interface :: InterfaceInfo where
  "position_interface = \<lparr>InterfaceInfo.name = ''position''\<rparr>"

definition velocity_interface :: InterfaceInfo where
  "velocity_interface = \<lparr>InterfaceInfo.name = ''velocity''\<rparr>"

definition joint1 :: ComponentInfo where
  "joint1 = \<lparr>ComponentInfo.name = ''joint1'', command_interfaces = [position_interface],
             state_interfaces = [position_interface]\<rparr>"

definition rrbot_info :: HardwareInfo where
  "rrbot_info =
     \<lparr>hardware_parameters =
        [''example_param_hw_start_duration_sec'' \<mapsto> ''2.0'',
         ''example_param_hw_stop_duration_sec'' \<mapsto> ''3.0'',
         ''example_param_hw_slowdown'' \<mapsto> ''2.0''],
      joints = [joint1]\<rparr>"

definition rrbot :: "double \<Rightarrow> double \<Rightarrow> double \<Rightarrow> RRBotModularJoint" where
  "rrbot s c d =
     \<lparr>info = rrbot_info, hw_start_sec = Num False 2, hw_stop_sec = Num False 3,
      hw_slowdown = d, hw_joint_state = s, hw_joint_command = c\<rparr>"

text \<open>
  An object before \<^verbatim>\<open>on_init\<close>, and three descriptions that \<^verbatim>\<open>on_init\<close> does not accept:
  a velocity command interface, no joint, no slowdown parameter.
\<close>

definition fresh_object :: RRBotModularJoint where
  "fresh_object =
     \<lparr>info = \<lparr>hardware_parameters = Map.empty, joints = []\<rparr>,
      hw_start_sec = Num False 0, hw_stop_sec = Num False 0, hw_slowdown = Num False 0,
      hw_joint_state = Num False 0, hw_joint_command = Num False 0\<rparr>"

definition velocity_info :: HardwareInfo where
  "velocity_info = rrbot_info\<lparr>joints := [joint1\<lparr>command_interfaces := [velocity_interface]\<rparr>]\<rparr>"

definition jointless_info :: HardwareInfo where
  "jointless_info = rrbot_info\<lparr>joints := []\<rparr>"

definition slowdownless_info :: HardwareInfo where
  "slowdownless_info =
     velocity_info\<lparr>hardware_parameters :=
       [''example_param_hw_start_duration_sec'' \<mapsto> ''2.0'',
        ''example_param_hw_stop_duration_sec'' \<mapsto> ''3.0'']\<rparr>"

section \<open>Facts about the arithmetic\<close>

lemma round_mag_zero: "round_mag 0 = 0"
  by (simp add: round_mag_def round_half_even_def)

lemma round_double_zero: "round_double s 0 = Num s 0"
  by (simp add: round_double_def round_mag_zero)

lemma round_double_representable: "representable m \<Longrightarrow> round_double s m = Num s m"
  by (simp add: round_double_def representable_def)

lemma representable_0: "representable 0"
  by (simp add: representable_def round_mag_zero)

text \<open>\<open>ilog2\<close> is the binary exponent.\<close>

lemma ilog2_lower:
  assumes "0 < x"
  shows "2 powi (ilog2 x) \<le> x"
proof (cases "1 \<le> x")
  case True
  then have pos: "0 < nat \<lfloor>x\<rfloor>" by simp
  let ?f = "floorlog 2 (nat \<lfloor>x\<rfloor>)"
  from floorlog_bounds [OF pos, of 2] have b: "2 ^ (?f - 1) \<le> nat \<lfloor>x\<rfloor>" by simp
  from pos have f1: "1 \<le> ?f" by (simp add: floorlog_def)
  then have e: "ilog2 x = int (?f - 1)" using True by (simp add: ilog2_def)
  have "(2::real) ^ (?f - 1) = real (2 ^ (?f - 1))" by simp
  also have "\<dots> \<le> real (nat \<lfloor>x\<rfloor>)" using b by (simp only: of_nat_le_iff)
  also have "\<dots> \<le> x" using True by simp
  finally show ?thesis by (simp add: e)
next
  case False
  with assms have inv: "1 < 1 / x" by simp
  let ?N = "nat \<lceil>1 / x\<rceil>"
  let ?f = "floorlog 2 (?N - 1)"
  from inv have c: "2 \<le> \<lceil>1 / x\<rceil>" by linarith
  then have N: "0 < ?N - 1" by simp
  from floorlog_bounds [OF N, of 2] have "?N - 1 < 2 ^ ?f" by simp
  with N have "?N \<le> 2 ^ ?f" by linarith
  then have "real ?N \<le> 2 ^ ?f"
    by (metis of_nat_le_iff of_nat_numeral of_nat_power)
  moreover have "1 / x \<le> real ?N" using c by (simp add: of_nat_nat le_of_int_ceiling)
  ultimately have "1 / x \<le> 2 ^ ?f" by linarith
  with assms have "1 \<le> 2 ^ ?f * x" by (simp add: field_simps)
  then have "1 / 2 ^ ?f \<le> x" by (simp add: field_simps)
  moreover have "ilog2 x = - int ?f" using False by (simp add: ilog2_def)
  ultimately show ?thesis by (simp add: power_int_minus_divide)
qed

lemma ilog2_upper:
  assumes "0 < x"
  shows "x < 2 powi (ilog2 x + 1)"
proof (cases "1 \<le> x")
  case True
  then have pos: "0 < nat \<lfloor>x\<rfloor>" by simp
  let ?f = "floorlog 2 (nat \<lfloor>x\<rfloor>)"
  from floorlog_bounds [OF pos, of 2] have b: "nat \<lfloor>x\<rfloor> < 2 ^ ?f" by simp
  then have "\<lfloor>x\<rfloor> < 2 ^ ?f" using True
    by (metis nat_less_iff of_nat_numeral of_nat_power zero_le_floor order_trans zero_le_one)
  then have "x < of_int (2 ^ ?f)" by (simp only: floor_less_iff)
  moreover have "ilog2 x + 1 = int ?f" using True by (simp add: ilog2_def)
  ultimately show ?thesis by simp
next
  case False
  with assms have inv: "1 < 1 / x" by simp
  let ?N = "nat \<lceil>1 / x\<rceil>"
  let ?f = "floorlog 2 (?N - 1)"
  from inv have c: "2 \<le> \<lceil>1 / x\<rceil>" by linarith
  then have N: "0 < ?N - 1" by simp
  then have f1: "1 \<le> ?f" by (simp add: floorlog_def)
  from floorlog_bounds [OF N, of 2] have b: "2 ^ (?f - 1) \<le> ?N - 1" by simp
  have "int (?N - 1) = \<lceil>1 / x\<rceil> - 1" using c by linarith
  then have "real_of_int (int (?N - 1)) = of_int (\<lceil>1 / x\<rceil> - 1)" by (simp only:)
  then have d: "real (?N - 1) = of_int (\<lceil>1 / x\<rceil> - 1)" by simp
  have "(2::real) ^ (?f - 1) = real (2 ^ (?f - 1))" by simp
  also have "\<dots> \<le> real (?N - 1)" using b by (simp only: of_nat_le_iff)
  also have "\<dots> < 1 / x" unfolding d by linarith
  finally have "2 ^ (?f - 1) < 1 / x" .
  with assms have "x * 2 ^ (?f - 1) < 1" by (simp add: field_simps)
  then have "x < 1 / 2 ^ (?f - 1)" by (simp add: field_simps)
  moreover have "ilog2 x + 1 = - int (?f - 1)" using False f1 by (simp add: ilog2_def)
  ultimately show ?thesis by (simp add: power_int_minus_divide)
qed

lemma ilog2_eq:
  assumes "0 < x"
  shows "ilog2 x = \<lfloor>log 2 x\<rfloor>"
proof -
  have a: "2 powr real_of_int (ilog2 x) = 2 powi (ilog2 x)"
    by (rule powr_real_of_int') simp_all
  have "2 powr real_of_int (ilog2 x + 1) = 2 powi (ilog2 x + 1)"
    by (rule powr_real_of_int') simp_all
  then have b: "2 powr (real_of_int (ilog2 x) + 1) = 2 powi (ilog2 x + 1)"
    by simp
  have "\<lfloor>log 2 x\<rfloor> = ilog2 x"
    using assms ilog2_lower [OF assms] ilog2_upper [OF assms]
    by (subst floor_log_eq_powr_iff) (simp_all add: a b)
  then show ?thesis by simp
qed

text \<open>
  Every \<open>k \<sqdot> 2\<^sup>e\<close> with \<open>k < 2\<^sup>5\<^sup>3\<close> and \<open>-1074 \<le> e \<le> 971\<close>, the values of the binary64
  format, is representable.
\<close>

lemma round_half_even_of_int: "round_half_even (of_int n) = n"
  by (simp add: round_half_even_def)

lemma round_mag_grid:
  assumes "x / quantum x = of_int n"
  shows "round_mag x = x"
proof -
  have "quantum x \<noteq> 0" by (simp add: quantum_def)
  with assms have "x = of_int n * quantum x" by (simp add: field_simps)
  with assms show ?thesis by (simp add: round_mag_def round_half_even_of_int)
qed

lemma representable_grid:
  assumes "0 \<le> k" and "k < 2 ^ 53" and "- 1074 \<le> e" and "e \<le> 971"
  shows "representable (of_int k * 2 powi e)"
proof (cases "k = 0")
  case True
  then show ?thesis by (simp add: representable_0)
next
  case False
  let ?m = "of_int k * 2 powi e :: real"
  let ?E = "max (ilog2 ?m) (- 1022) - 52"
  from False assms have kpos: "0 < k" by simp
  then have mpos: "0 < ?m" by simp
  from assms(2) have "real_of_int k < of_int (2 ^ 53)" by (simp only: of_int_less_iff)
  then have "real_of_int k < 2 powi 53" by simp
  then have "?m < 2 powi 53 * 2 powi e" by simp
  also have "\<dots> = 2 powi (e + 53)" by (simp add: power_int_add)
  finally have up: "?m < 2 powi (e + 53)" .
  have il: "ilog2 ?m < e + 53"
  proof (rule ccontr)
    assume "\<not> ilog2 ?m < e + 53"
    then have "(2::real) powi (e + 53) \<le> 2 powi (ilog2 ?m)"
      by (intro power_int_increasing) simp_all
    with ilog2_lower [OF mpos] up show False by linarith
  qed
  with assms have E: "?E \<le> e" by simp
  have "?m / quantum ?m = of_int k * (2 powi e / 2 powi ?E)"
    by (simp add: quantum_def)
  also have "2 powi e / 2 powi ?E = (2::real) powi (e - ?E)"
    by (simp add: power_int_diff)
  also have "\<dots> = 2 ^ nat (e - ?E)"
    using E by (simp add: power_int_def)
  finally have "?m / quantum ?m = of_int (k * 2 ^ nat (e - ?E))" by simp
  then have r: "round_mag ?m = ?m" by (rule round_mag_grid)
  from assms have "(2::real) powi (e + 53) \<le> 2 powi 1024"
    by (intro power_int_increasing) simp_all
  with up have "?m < 2 ^ 1024" by simp
  with r mpos show ?thesis by (simp add: representable_def)
qed

lemma representable_5_2: "representable (5 / 2)"
  using representable_grid [of 5 "- 1"] by simp

lemma representable_2147483650: "representable 2147483650"
  using representable_grid [of 2147483650 0] by simp

lemma representable_2p31: "representable 2147483648"
  using representable_grid [of 2147483648 0] by simp

lemma representable_1: "representable 1"
  using representable_grid [of 1 0] by simp

lemma representable_half: "representable (1 / 2)"
  using representable_grid [of 1 "- 1"] by simp

lemma representable_4: "representable 4"
  using representable_grid [of 4 0] by simp

lemma representable_max: "representable ((2 ^ 53 - 1) * 2 ^ 971)"
  using representable_grid [of "2 ^ 53 - 1" 971] by simp

text \<open>
  Rounding gives the nearest multiple of the spacing, and a double again: the finite
  doubles are exactly the numbers \<open>k \<sqdot> 2\<^sup>e\<close> with \<open>k < 2\<^sup>5\<^sup>3\<close> and \<open>-1074 \<le> e \<le> 971\<close>, and the
  operations of the source take doubles to doubles.
\<close>

lemma round_half_even_ge: "of_int N \<le> y \<Longrightarrow> N \<le> round_half_even y"
proof -
  assume "of_int N \<le> y"
  then have "N \<le> \<lfloor>y\<rfloor>" by (simp add: le_floor_iff)
  then show ?thesis by (simp add: round_half_even_def Let_def)
qed

lemma round_half_even_le: "y \<le> of_int N \<Longrightarrow> round_half_even y \<le> N"
proof (cases "y = of_int N")
  case True
  then show ?thesis by (simp add: round_half_even_of_int)
next
  case False
  assume "y \<le> of_int N"
  with False have "y < of_int N" by simp
  then have "\<lfloor>y\<rfloor> < N" by (simp add: floor_less_iff)
  then show ?thesis by (simp add: round_half_even_def Let_def)
qed

lemma round_half_even_near: "\<bar>of_int (round_half_even y) - y\<bar> \<le> 1 / 2"
  by (simp add: round_half_even_def Let_def)

lemma two_powi_shift: "e' = e + int n \<Longrightarrow> (2::real) powi e' = 2 powi e * 2 ^ n"
  by (simp add: power_int_add)

lemma quantum_pos: "0 < quantum x"
  by (simp add: quantum_def)

lemma round_mag_near: "\<bar>round_mag x - x\<bar> \<le> quantum x / 2"
proof -
  have "round_mag x - x = (of_int (round_half_even (x / quantum x)) - x / quantum x) * quantum x"
    using quantum_pos [of x] by (simp add: round_mag_def field_simps)
  then have "\<bar>round_mag x - x\<bar> = \<bar>of_int (round_half_even (x / quantum x)) - x / quantum x\<bar> * quantum x"
    using quantum_pos [of x] by (simp add: abs_mult)
  also have "\<dots> \<le> 1 / 2 * quantum x"
    using quantum_pos [of x] round_half_even_near [of "x / quantum x"]
    by (intro mult_right_mono) simp_all
  finally show ?thesis by simp
qed

lemma mantissa_upper:
  assumes "0 < x"
  shows "x / quantum x < 2 ^ 53"
proof -
  have "x < 2 powi (ilog2 x + 1)" by (rule ilog2_upper [OF assms])
  also have "\<dots> \<le> 2 powi (max (ilog2 x) (- 1022) + 1)"
    by (intro power_int_increasing) simp_all
  also have "\<dots> = 2 powi (max (ilog2 x) (- 1022) - 52) * 2 ^ 53"
    by (rule two_powi_shift) simp
  finally have "x < quantum x * 2 ^ 53" by (simp add: quantum_def)
  then show ?thesis using quantum_pos [of x] by (simp add: field_simps)
qed

lemma mantissa_lower:
  assumes "0 < x" and "- 1022 \<le> ilog2 x"
  shows "2 ^ 52 \<le> x / quantum x"
proof -
  have "2 powi (ilog2 x) = 2 powi (ilog2 x - 52) * (2::real) ^ 52"
    by (rule two_powi_shift) simp
  with assms(2) have "quantum x * 2 ^ 52 = 2 powi (ilog2 x)"
    by (simp add: quantum_def max_def)
  also have "\<dots> \<le> x" by (rule ilog2_lower [OF assms(1)])
  finally show ?thesis using quantum_pos [of x] by (simp add: field_simps)
qed

lemma round_mag_on_grid:
  assumes "0 \<le> x" and "round_mag x < 2 ^ 1024"
  shows "\<exists>k e. round_mag x = of_int k * 2 powi e \<and>
           0 \<le> k \<and> k < 2 ^ 53 \<and> - 1074 \<le> e \<and> e \<le> 971"
proof (cases "x = 0")
  case True
  have "round_mag 0 = of_int 0 * 2 powi 0 \<and> (0::int) \<le> 0 \<and> (0::int) < 2 ^ 53 \<and>
        - 1074 \<le> (0::int) \<and> (0::int) \<le> 971"
    by (simp add: round_mag_zero)
  with True show ?thesis by blast
next
  case False
  with assms have pos: "0 < x" by simp
  let ?E = "max (ilog2 x) (- 1022) - 52"
  let ?n = "round_half_even (x / quantum x)"
  have r: "round_mag x = of_int ?n * 2 powi ?E"
    by (simp add: round_mag_def quantum_def)
  have E: "- 1074 \<le> ?E" by simp
  have "0 \<le> x / quantum x" using pos quantum_pos [of x] by simp
  then have n0: "0 \<le> ?n" using round_half_even_ge [of 0] by simp
  have "x / quantum x \<le> of_int (2 ^ 53)" using mantissa_upper [OF pos] by simp
  then have n1: "?n \<le> 2 ^ 53" by (rule round_half_even_le)
  show ?thesis
  proof (cases "?n = 2 ^ 53")
    case True
    have "2 powi (?E + 53) = 2 powi ?E * (2::real) ^ 53"
      by (rule two_powi_shift) simp
    with True r have r': "round_mag x = 2 powi (?E + 53)"
      by simp
    have "?E + 53 < 1024"
    proof (rule ccontr)
      assume "\<not> ?E + 53 < 1024"
      then have "(2::real) powi 1024 \<le> 2 powi (?E + 53)"
        by (intro power_int_increasing) simp_all
      with assms(2) r' show False by simp
    qed
    then have e: "?E + 1 \<le> 971" by simp
    have "(2::real) powi (?E + 53) = 2 powi (?E + 1) * 2 ^ 52"
      by (rule two_powi_shift) simp
    with r' have "round_mag x = of_int (2 ^ 52) * 2 powi (?E + 1)"
      by simp
    moreover have "(0::int) \<le> 2 ^ 52" and "(2::int) ^ 52 < 2 ^ 53" and "- 1074 \<le> ?E + 1"
      by simp_all
    ultimately show ?thesis using e by blast
  next
    case False
    with n1 have n2: "?n < 2 ^ 53" by simp
    have "?E \<le> 971"
    proof (rule ccontr)
      assume a: "\<not> ?E \<le> 971"
      then have il: "- 1022 \<le> ilog2 x" by simp
      have "of_int (2 ^ 52) \<le> x / quantum x" using mantissa_lower [OF pos il] by simp
      then have "2 ^ 52 \<le> ?n" by (rule round_half_even_ge)
      then have "(2::real) ^ 52 \<le> of_int ?n"
        by (metis of_int_le_iff of_int_numeral of_int_power)
      moreover from a have "(2::real) powi 972 \<le> 2 powi ?E"
        by (intro power_int_increasing) simp_all
      ultimately have "(2::real) ^ 52 * 2 powi 972 \<le> of_int ?n * 2 powi ?E"
        by (intro mult_mono) simp_all
      with assms(2) r show False by simp
    qed
    with r E n0 n2 show ?thesis by blast
  qed
qed

lemma representable_round_mag:
  assumes "0 \<le> x" and "round_mag x < 2 ^ 1024"
  shows "representable (round_mag x)"
  using round_mag_on_grid [OF assms] representable_grid by auto

lemma representable_iff:
  "representable m \<longleftrightarrow>
     (\<exists>k e. m = of_int k * 2 powi e \<and> 0 \<le> k \<and> k < 2 ^ 53 \<and> - 1074 \<le> e \<and> e \<le> 971)"
proof
  assume "representable m"
  then have "0 \<le> m" and "round_mag m < 2 ^ 1024" and "round_mag m = m"
    by (simp_all add: representable_def)
  with round_mag_on_grid [of m] show
    "\<exists>k e. m = of_int k * 2 powi e \<and> 0 \<le> k \<and> k < 2 ^ 53 \<and> - 1074 \<le> e \<and> e \<le> 971"
    by simp
next
  assume "\<exists>k e. m = of_int k * 2 powi e \<and> 0 \<le> k \<and> k < 2 ^ 53 \<and> - 1074 \<le> e \<and> e \<le> 971"
  then show "representable m" using representable_grid by auto
qed

lemma valid_round_double: "0 \<le> x \<Longrightarrow> valid_double (round_double s x)"
  by (simp add: round_double_def Let_def representable_round_mag)

lemma valid_dadd: "valid_double (dadd x y)"
  by (cases x; cases y) (simp_all add: Let_def representable_0 valid_round_double)

lemma valid_dneg: "valid_double x \<Longrightarrow> valid_double (dneg x)"
  by (cases x) simp_all

lemma valid_dsub: "valid_double (dsub x y)"
  by (simp add: dsub_def valid_dadd)

lemma valid_ddiv: "valid_double x \<Longrightarrow> valid_double y \<Longrightarrow> valid_double (ddiv x y)"
  by (cases x; cases y) (simp_all add: representable_0 valid_round_double representable_def round_mag_zero)

lemma rrbot_joints: "joints (info (rrbot s c d)) = [joint1]"
  by (simp add: rrbot_def rrbot_info_def)

lemma step_0_1_2:
  "dadd (Num False 0) (ddiv (dsub (Num False 1) (Num False 0)) (Num False 2)) = Num False (1 / 2)"
  by (simp add: dsub_def sval_def round_double_representable representable_1 representable_half)

section \<open>\<^verbatim>\<open>read\<close> and \<^verbatim>\<open>write\<close>\<close>

text \<open>
  C1. For every state \<open>s\<close>, command \<open>c\<close> and slowdown \<open>d\<close>, one call of \<^verbatim>\<open>read\<close> returns
  \<^verbatim>\<open>OK\<close> and leaves the object as it was except for the joint state, which becomes
  \<open>s + (c - s) / d\<close> in double arithmetic; the command in particular is unchanged. The
  object describes at least one joint (the log line reads \<^verbatim>\<open>info_.joints[0].name\<close>).
\<close>

theorem read_update:
  assumes "joints (info this) \<noteq> []"
  shows "returned (read this) = Some OK \<and>
         object_after (read this) =
           Some (this\<lparr>hw_joint_state :=
                   dadd (hw_joint_state this)
                     (ddiv (dsub (hw_joint_command this) (hw_joint_state this))
                        (hw_slowdown this))\<rparr>) \<and>
         (\<forall>this'. object_after (read this) = Some this' \<longrightarrow>
            hw_joint_command this' = hw_joint_command this)"
  using assms
  by (cases "joints (info this)") (simp_all add: read_def returned_def object_after_def)

theorem read_update_witness:
  "joints (info (rrbot (Num False 0) (Num False 1) (Num False 2))) \<noteq> [] \<and>
   returned (read (rrbot (Num False 0) (Num False 1) (Num False 2))) = Some OK \<and>
   object_after (read (rrbot (Num False 0) (Num False 1) (Num False 2)))
     = Some (rrbot (Num False (1 / 2)) (Num False 1) (Num False 2))"
proof -
  let ?X = "rrbot (Num False 0) (Num False 1) (Num False 2)"
  have j: "joints (info ?X) \<noteq> []"
    by (simp add: rrbot_joints)
  from read_update [OF j] show ?thesis
    using j by (simp add: rrbot_def step_0_1_2)
qed

text \<open>
  C8. \<^verbatim>\<open>write\<close> returns \<^verbatim>\<open>OK\<close> and leaves the whole object, so the joint state and the
  joint command, exactly as it was; all it does is log. The object describes at least
  one joint (the log line reads \<^verbatim>\<open>info_.joints[0].name\<close>).
\<close>

theorem write_hw_frame:
  assumes "joints (info this) \<noteq> []"
  shows "returned (write_hw this) = Some OK \<and> object_after (write_hw this) = Some this \<and>
         list_all is_log (events_of (write_hw this))"
  using assms
  by (cases "joints (info this)")
     (simp_all add: write_hw_def returned_def object_after_def events_of_def)

theorem write_hw_frame_witness:
  "joints (info (rrbot (Num False 1) (Num False 3) (Num False 2))) \<noteq> [] \<and>
   returned (write_hw (rrbot (Num False 1) (Num False 3) (Num False 2))) = Some OK \<and>
   object_after (write_hw (rrbot (Num False 1) (Num False 3) (Num False 2)))
     = Some (rrbot (Num False 1) (Num False 3) (Num False 2))"
  using write_hw_frame [of "rrbot (Num False 1) (Num False 3) (Num False 2)"]
  by (simp add: rrbot_joints)

section \<open>\<^verbatim>\<open>on_init\<close> and the exported interfaces\<close>

lemma index_parameters_eq:
  "index_parameters this key =
     (parameter_string (info this) key, snd (index_parameters this key))"
  by (simp add: index_parameters_def parameter_string_def split: option.split)

lemma index_parameters_joints:
  "joints (info (snd (index_parameters this key))) = joints (info this)"
  by (simp add: index_parameters_def split: option.split)

lemma index_parameters_string:
  "parameter_string (info (snd (index_parameters this key))) k = parameter_string (info this) k"
  by (simp add: index_parameters_def parameter_string_def split: option.split)

lemma get_parameter_eq:
  "get_parameter stod this key =
     (case stod (parameter_string (info this) key) of
        None \<Rightarrow> Inl StodException
      | Some d \<Rightarrow> Inr (d, snd (index_parameters this key)))"
  by (subst get_parameter_def, subst index_parameters_eq) simp

lemma spec_interface_shape_iff:
  "spec_interface_shape joint \<longleftrightarrow>
     length (command_interfaces joint) = 1 \<and>
     InterfaceInfo.name (command_interfaces joint ! 0) = HW_IF_POSITION \<and>
     length (state_interfaces joint) = 1 \<and>
     InterfaceInfo.name (state_interfaces joint ! 0) = HW_IF_POSITION"
  by (auto simp add: spec_interface_shape_def HW_IF_POSITION_def length_Suc_conv)

lemma on_init_parse_failure:
  assumes "base_on_init this hw = (SUCCESS, this0)"
    and "\<not> parameters_parse stod (info this0)"
  shows "on_init base_on_init stod this hw = Inl StodException"
  using assms
  by (auto simp add: on_init_def get_parameter_eq parameters_parse_def index_parameters_string
      split: option.split)

lemma on_init_no_joint:
  assumes "base_on_init this hw = (SUCCESS, this0)"
    and "parameters_parse stod (info this0)"
    and "joints (info this0) = []"
  shows "on_init base_on_init stod this hw = Inl VectorOutOfRange"
  using assms
  by (auto simp add: on_init_def get_parameter_eq parameters_parse_def index_parameters_string
      index_parameters_joints Let_def split: option.split)

lemma on_init_checked:
  assumes "base_on_init this hw = (SUCCESS, this0)"
    and "parameters_parse stod (info this0)"
    and "joints (info this0) = joint # rest"
  shows "returned (on_init base_on_init stod this hw) =
           Some (if spec_interface_shape joint then SUCCESS else ERROR)"
    and "list_all is_fatal (events_of (on_init base_on_init stod this hw))"
    and "length (events_of (on_init base_on_init stod this hw)) =
           (if spec_interface_shape joint then 0 else 1)"
    and "\<exists>this'. object_after (on_init base_on_init stod this hw) = Some this' \<and>
           isnan (hw_joint_state this') \<and> isnan (hw_joint_command this') \<and>
           joints (info this') = joints (info this0)"
  using assms
  by (auto simp add: on_init_def get_parameter_eq parameters_parse_def index_parameters_string
      index_parameters_joints spec_interface_shape_iff returned_def events_of_def object_after_def
      Let_def
      split: option.split)

lemma on_init_base_failure:
  assumes "base_on_init this hw = (r, this0)" and "r \<noteq> SUCCESS"
  shows "on_init base_on_init stod this hw = Inr (ERROR, this0, [])"
  using assms by (simp add: on_init_def)

lemma rrbot_info_parse: "parameters_parse stod_example rrbot_info"
  by (simp add: parameters_parse_def parameter_string_def rrbot_info_def stod_example_def)

lemma velocity_info_parse: "parameters_parse stod_example velocity_info"
  by (simp add: parameters_parse_def parameter_string_def rrbot_info_def stod_example_def velocity_info_def)

lemma jointless_info_parse: "parameters_parse stod_example jointless_info"
  by (simp add: parameters_parse_def parameter_string_def rrbot_info_def stod_example_def jointless_info_def)

lemma slowdownless_info_parse: "\<not> parameters_parse stod_example slowdownless_info"
  by (simp add: parameters_parse_def parameter_string_def slowdownless_info_def stod_example_def)

lemma joint1_shape: "spec_interface_shape joint1"
  by (simp add: spec_interface_shape_def joint1_def position_interface_def)

lemma velocity_shape: "\<not> spec_interface_shape (joint1\<lparr>command_interfaces := [velocity_interface]\<rparr>)"
  by (simp add: spec_interface_shape_def joint1_def position_interface_def velocity_interface_def)

text \<open>
  C2. \<^verbatim>\<open>on_init\<close> checks the shape of the joint's interfaces once: when the base class
  has initialised, the three parameters parse and there is a joint, it returns
  \<^verbatim>\<open>SUCCESS\<close>, logging nothing, if the joint has exactly one command interface and exactly one
  state interface, both of kind "position", and otherwise returns \<^verbatim>\<open>ERROR\<close> after exactly one
  fatal log line. The four tests of the code decide the three conditions of the
  specification.
\<close>

theorem on_init_checks:
  assumes "base_on_init this hw = (SUCCESS, this0)"
    and "parameters_parse stod (info this0)"
    and "joints (info this0) = joint # rest"
  shows "returned (on_init base_on_init stod this hw) =
           Some (if spec_interface_shape joint then SUCCESS else ERROR) \<and>
         list_all is_fatal (events_of (on_init base_on_init stod this hw)) \<and>
         length (events_of (on_init base_on_init stod this hw)) =
           (if spec_interface_shape joint then 0 else 1)"
  using assms
    on_init_checked(1-3) [where base_on_init = base_on_init and this = this and hw = hw
      and ?this0.0 = this0 and stod = stod and joint = joint and rest = rest]
  by simp

theorem on_init_checks_witness:
  "returned (on_init framework_on_init stod_example fresh_object rrbot_info) = Some SUCCESS \<and>
   events_of (on_init framework_on_init stod_example fresh_object rrbot_info) = [] \<and>
   returned (on_init framework_on_init stod_example fresh_object velocity_info) = Some ERROR \<and>
   length (events_of (on_init framework_on_init stod_example fresh_object velocity_info)) = 1"
proof -
  have a: "framework_on_init fresh_object rrbot_info = (SUCCESS, fresh_object\<lparr>info := rrbot_info\<rparr>)"
    and b: "framework_on_init fresh_object velocity_info = (SUCCESS, fresh_object\<lparr>info := velocity_info\<rparr>)"
    by (simp_all add: framework_on_init_def)
  have ja: "joints (info (fresh_object\<lparr>info := rrbot_info\<rparr>)) = joint1 # []"
    by (simp add: rrbot_info_def)
  have jb: "joints (info (fresh_object\<lparr>info := velocity_info\<rparr>)) =
              joint1\<lparr>command_interfaces := [velocity_interface]\<rparr> # []"
    by (simp add: velocity_info_def)
  have pa: "parameters_parse stod_example (info (fresh_object\<lparr>info := rrbot_info\<rparr>))"
    by (simp add: rrbot_info_parse)
  have pb: "parameters_parse stod_example (info (fresh_object\<lparr>info := velocity_info\<rparr>))"
    by (simp add: velocity_info_parse)
  show ?thesis
    using a pa ja b pb jb
      on_init_checks [where base_on_init = framework_on_init and this = fresh_object
        and hw = rrbot_info and ?this0.0 = "fresh_object\<lparr>info := rrbot_info\<rparr>"
        and stod = stod_example and joint = joint1 and rest = "[]"]
      on_init_checks [where base_on_init = framework_on_init and this = fresh_object
        and hw = velocity_info and ?this0.0 = "fresh_object\<lparr>info := velocity_info\<rparr>"
        and stod = stod_example and joint = "joint1\<lparr>command_interfaces := [velocity_interface]\<rparr>"
        and rest = "[]"]
    by (simp add: joint1_shape velocity_shape)
qed

text \<open>
  C10. What \<^verbatim>\<open>on_init\<close> needs and does not check, once the base class has initialised:
  when one of the three parameter strings does not parse, \<^verbatim>\<open>stod\<close> throws, whatever the
  joints are; when they parse and there is no joint, \<^verbatim>\<open>joints[0]\<close> is read out of range;
  only when they parse and there is a joint does \<^verbatim>\<open>on_init\<close> return, and then
  \<^verbatim>\<open>SUCCESS\<close> or \<^verbatim>\<open>ERROR\<close>. An absent parameter is read as the empty string.
\<close>

theorem on_init_precondition:
  assumes "base_on_init this hw = (SUCCESS, this0)"
  shows "(stod '''' = None \<and>
          (hardware_parameters (info this0) ''example_param_hw_start_duration_sec'' = None \<or>
           hardware_parameters (info this0) ''example_param_hw_stop_duration_sec'' = None \<or>
           hardware_parameters (info this0) ''example_param_hw_slowdown'' = None) \<longrightarrow>
            on_init base_on_init stod this hw = Inl StodException) \<and>
         (\<not> parameters_parse stod (info this0) \<longrightarrow>
            on_init base_on_init stod this hw = Inl StodException) \<and>
         (parameters_parse stod (info this0) \<and> joints (info this0) = [] \<longrightarrow>
            on_init base_on_init stod this hw = Inl VectorOutOfRange) \<and>
         (parameters_parse stod (info this0) \<and> joints (info this0) \<noteq> [] \<longrightarrow>
            returned (on_init base_on_init stod this hw) = Some SUCCESS \<or>
            returned (on_init base_on_init stod this hw) = Some ERROR)"
proof (intro conjI impI)
  assume "stod '''' = None \<and>
          (hardware_parameters (info this0) ''example_param_hw_start_duration_sec'' = None \<or>
           hardware_parameters (info this0) ''example_param_hw_stop_duration_sec'' = None \<or>
           hardware_parameters (info this0) ''example_param_hw_slowdown'' = None)"
  then have "\<not> parameters_parse stod (info this0)"
    by (auto simp add: parameters_parse_def parameter_string_def)
  then show "on_init base_on_init stod this hw = Inl StodException"
    using assms
      on_init_parse_failure [where base_on_init = base_on_init and this = this and hw = hw
        and ?this0.0 = this0 and stod = stod]
    by simp
next
  assume "\<not> parameters_parse stod (info this0)"
  then show "on_init base_on_init stod this hw = Inl StodException"
    using assms
      on_init_parse_failure [where base_on_init = base_on_init and this = this and hw = hw
        and ?this0.0 = this0 and stod = stod]
    by simp
next
  assume "parameters_parse stod (info this0) \<and> joints (info this0) = []"
  then show "on_init base_on_init stod this hw = Inl VectorOutOfRange"
    using assms
      on_init_no_joint [where base_on_init = base_on_init and this = this and hw = hw
        and ?this0.0 = this0 and stod = stod]
    by simp
next
  assume a: "parameters_parse stod (info this0) \<and> joints (info this0) \<noteq> []"
  then obtain joint rest where "joints (info this0) = joint # rest"
    by (cases "joints (info this0)") auto
  with a assms
    on_init_checked(1) [where base_on_init = base_on_init and this = this and hw = hw
      and ?this0.0 = this0 and stod = stod and joint = joint and rest = rest]
  show "returned (on_init base_on_init stod this hw) = Some SUCCESS \<or>
        returned (on_init base_on_init stod this hw) = Some ERROR"
    by (simp split: if_splits)
qed

theorem on_init_precondition_witness:
  "stod_example '''' = None \<and>
   hardware_parameters slowdownless_info ''example_param_hw_slowdown'' = None \<and>
   on_init framework_on_init stod_example fresh_object slowdownless_info = Inl StodException \<and>
   parameters_parse stod_example jointless_info \<and> joints jointless_info = [] \<and>
   on_init framework_on_init stod_example fresh_object jointless_info = Inl VectorOutOfRange \<and>
   parameters_parse stod_example velocity_info \<and> joints velocity_info \<noteq> [] \<and>
   (returned (on_init framework_on_init stod_example fresh_object velocity_info) = Some SUCCESS \<or>
    returned (on_init framework_on_init stod_example fresh_object velocity_info) = Some ERROR)"
proof -
  have a: "framework_on_init fresh_object slowdownless_info =
             (SUCCESS, fresh_object\<lparr>info := slowdownless_info\<rparr>)"
    and b: "framework_on_init fresh_object jointless_info =
             (SUCCESS, fresh_object\<lparr>info := jointless_info\<rparr>)"
    and c: "framework_on_init fresh_object velocity_info =
             (SUCCESS, fresh_object\<lparr>info := velocity_info\<rparr>)"
    by (simp_all add: framework_on_init_def)
  show ?thesis
    using a b c
      on_init_precondition [where base_on_init = framework_on_init and this = fresh_object
        and hw = slowdownless_info and ?this0.0 = "fresh_object\<lparr>info := slowdownless_info\<rparr>"
        and stod = stod_example]
      on_init_precondition [where base_on_init = framework_on_init and this = fresh_object
        and hw = jointless_info and ?this0.0 = "fresh_object\<lparr>info := jointless_info\<rparr>"
        and stod = stod_example]
      on_init_precondition [where base_on_init = framework_on_init and this = fresh_object
        and hw = velocity_info and ?this0.0 = "fresh_object\<lparr>info := velocity_info\<rparr>"
        and stod = stod_example]
    by (simp add: slowdownless_info_parse jointless_info_parse velocity_info_parse)
       (simp add: jointless_info_def velocity_info_def slowdownless_info_def stod_example_def)
qed

text \<open>
  C7. The plugin exports one joint's position: when the description has a first joint,
  \<^verbatim>\<open>export_state_interfaces\<close> returns exactly one state interface and
  \<^verbatim>\<open>export_command_interfaces\<close> exactly one command interface, both named after that
  joint and both of kind "position", the first on the joint state and the second on the
  joint command.
\<close>

theorem export_interfaces:
  assumes "joints (info this) = joint # rest"
  shows "export_state_interfaces this =
           Inr [\<lparr>joint_name = ComponentInfo.name joint, interface_name = ''position'',
                 value_ptr = Hw_joint_state\<rparr>] \<and>
         export_command_interfaces this =
           Inr [\<lparr>joint_name = ComponentInfo.name joint, interface_name = ''position'',
                 value_ptr = Hw_joint_command\<rparr>]"
  using assms
  by (simp add: export_state_interfaces_def export_command_interfaces_def HW_IF_POSITION_def)

theorem export_interfaces_witness:
  "export_state_interfaces (rrbot NaN NaN (Num False 2)) =
     Inr [\<lparr>joint_name = ''joint1'', interface_name = ''position'', value_ptr = Hw_joint_state\<rparr>] \<and>
   export_command_interfaces (rrbot NaN NaN (Num False 2)) =
     Inr [\<lparr>joint_name = ''joint1'', interface_name = ''position'', value_ptr = Hw_joint_command\<rparr>]"
  using export_interfaces [OF rrbot_joints, of NaN NaN "Num False 2"]
  by (simp add: joint1_def)

section \<open>The countdowns of \<^verbatim>\<open>on_activate\<close> and \<^verbatim>\<open>on_deactivate\<close>\<close>

lemma dlt_int_mono:
  "i \<le> j \<Longrightarrow> dlt (double_of_int j) secs \<Longrightarrow> dlt (double_of_int i) secs"
  by (cases secs) (auto simp add: double_of_int_def sval_def split: if_splits)

lemma dlt_iterations:
  assumes "\<not> overflows secs"
  shows "dlt (double_of_int (int k)) secs \<longleftrightarrow> k < iterations secs"
proof (cases secs)
  case (Num s m)
  have "real k < sval s m \<longleftrightarrow> int k < \<lceil>sval s m\<rceil>"
    by (simp add: less_ceiling_iff)
  also have "\<dots> \<longleftrightarrow> k < nat \<lceil>sval s m\<rceil>"
    by linarith
  finally show ?thesis
    using Num by (simp add: double_of_int_def sval_def)
next
  case (Infty s)
  with assms show ?thesis
    by (simp add: overflows_def double_of_int_def)
next
  case NaN
  then show ?thesis by (simp add: double_of_int_def)
qed

lemma iterations_le_INT_MAX:
  assumes "\<not> overflows secs"
  shows "int (iterations secs) \<le> INT_MAX"
proof (cases secs)
  case (Num s m)
  with assms have "sval s m \<le> of_int INT_MAX"
    by (simp add: overflows_def double_of_int_def sval_def INT_MAX_def split: if_splits)
  then have "\<lceil>sval s m\<rceil> \<le> INT_MAX"
    by (simp add: ceiling_le_iff)
  with Num show ?thesis
    by (simp add: INT_MAX_def)
qed (simp_all add: INT_MAX_def)

lemma countdown_run:
  assumes "\<not> overflows secs"
  shows "countdown secs (int k) evs =
           Inr (evs @ concat (map (\<lambda>i. countdown_body secs (int i)) [k..<iterations secs]))"
proof (induction "iterations secs - k" arbitrary: k evs)
  case 0
  then have "\<not> k < iterations secs" by simp
  then have "\<not> dlt (double_of_int (int k)) secs"
    by (simp add: dlt_iterations [OF assms])
  with 0 show ?case
    by (subst countdown.simps) simp
next
  case (Suc n)
  then have lt: "k < iterations secs" by simp
  then have d: "dlt (double_of_int (int k)) secs"
    by (simp add: dlt_iterations [OF assms])
  from lt iterations_le_INT_MAX [OF assms] have b: "\<not> INT_MAX \<le> int k"
    by simp
  from Suc have "n = iterations secs - Suc k" by simp
  from Suc.hyps(1) [OF this]
  have "countdown secs (int (Suc k)) (evs @ countdown_body secs (int k)) =
          Inr ((evs @ countdown_body secs (int k)) @
               concat (map (\<lambda>i. countdown_body secs (int i)) [Suc k..<iterations secs]))" .
  moreover have "countdown secs (int k) evs =
      countdown secs (int (Suc k)) (evs @ countdown_body secs (int k))"
    using d b by (subst countdown.simps) (simp add: add.commute)
  ultimately show ?case
    using lt by (simp add: upt_conv_Cons)
qed

lemma countdown_overflow:
  "overflows secs \<Longrightarrow> i \<le> INT_MAX \<Longrightarrow> countdown secs i evs = Inl SignedOverflow"
proof (induction secs i evs rule: countdown.induct)
  case (1 secs i evs)
  from \<open>overflows secs\<close> have "dlt (double_of_int INT_MAX) secs"
    by (simp add: overflows_def)
  with \<open>i \<le> INT_MAX\<close> have d: "dlt (double_of_int i) secs"
    by (rule dlt_int_mono)
  show ?case
  proof (cases "INT_MAX \<le> i")
    case True
    with d show ?thesis by (subst countdown.simps) simp
  next
    case False
    with d 1 show ?thesis by (subst countdown.simps) simp
  qed
qed

lemma countdown_from_0:
  "\<not> overflows secs \<Longrightarrow>
     countdown secs 0 evs = Inr (evs @ countdown_events secs (iterations secs))"
  using countdown_run [of secs 0 evs] by (simp add: countdown_events_def)

lemma countdown_overflow_0: "overflows secs \<Longrightarrow> countdown secs 0 evs = Inl SignedOverflow"
  by (rule countdown_overflow) (simp_all add: INT_MAX_def)

lemma overflows_iff:
  "overflows secs \<longleftrightarrow>
     secs = Infty False \<or> (\<exists>s m. secs = Num s m \<and> 2147483647 < sval s m)"
  by (cases secs) (auto simp add: overflows_def double_of_int_def sval_def INT_MAX_def)

lemma not_overflows_int: "int n \<le> INT_MAX \<Longrightarrow> \<not> overflows (double_of_int (int n))"
  by (simp add: overflows_def double_of_int_def sval_def INT_MAX_def)

lemma iterations_int: "iterations (double_of_int (int n)) = n"
  by (simp add: double_of_int_def sval_def)

lemma on_activate_completes:
  assumes "\<not> overflows (hw_start_sec this)"
  shows "on_activate this =
           Inr (SUCCESS,
                (if isnan (hw_joint_state this)
                 then this\<lparr>hw_joint_state := Num False 0, hw_joint_command := Num False 0\<rparr>
                 else this),
                [LogInfo ''Starting ...please wait...'' []] @
                countdown_events (hw_start_sec this) (iterations (hw_start_sec this)) @
                [LogInfo ''System Successfully started!'' []])"
  by (simp add: on_activate_def countdown_from_0 [OF assms])

lemma on_deactivate_completes:
  assumes "\<not> overflows (hw_stop_sec this)"
  shows "on_deactivate this =
           Inr (SUCCESS, this,
                [LogInfo ''Stopping ...please wait...'' []] @
                countdown_events (hw_stop_sec this) (iterations (hw_stop_sec this)) @
                [LogInfo ''System successfully stopped!'' []])"
  by (simp add: on_deactivate_def countdown_from_0 [OF assms])

lemma on_activate_overflow:
  "overflows (hw_start_sec this) \<Longrightarrow> on_activate this = Inl SignedOverflow"
  by (simp add: on_activate_def countdown_overflow_0)

lemma on_deactivate_overflow:
  "overflows (hw_stop_sec this) \<Longrightarrow> on_deactivate this = Inl SignedOverflow"
  by (simp add: on_deactivate_def countdown_overflow_0)

lemma sleeps_Nil: "sleeps [] = 0"
  by (simp add: sleeps_def)

lemma sleeps_Cons: "sleeps (e # evs) = (if e = SleepFor 1 then 1 else 0) + sleeps evs"
  by (simp add: sleeps_def)

lemma countdown_logs_Nil: "countdown_logs [] = 0"
  by (simp add: countdown_logs_def)

lemma countdown_logs_Cons:
  "countdown_logs (e # evs) =
     (case e of LogInfo f as \<Rightarrow> if f = ''%.1f seconds left...'' then 1 else 0 | _ \<Rightarrow> 0) +
     countdown_logs evs"
  by (simp add: countdown_logs_def split: event.split)

lemma sleeps_append: "sleeps (xs @ ys) = sleeps xs + sleeps ys"
  by (simp add: sleeps_def)

lemma countdown_logs_append: "countdown_logs (xs @ ys) = countdown_logs xs + countdown_logs ys"
  by (simp add: countdown_logs_def)

lemma sleeps_countdown: "sleeps (countdown_events secs n) = n"
  by (induction n) (simp_all add: countdown_events_def countdown_body_def sleeps_def)

lemma countdown_logs_countdown: "countdown_logs (countdown_events secs n) = n"
  by (induction n) (simp_all add: countdown_events_def countdown_body_def countdown_logs_def)

lemma on_activate_events:
  assumes "\<not> overflows (hw_start_sec this)"
  shows "returned (on_activate this) = Some SUCCESS"
    and "events_of (on_activate this) =
           [LogInfo ''Starting ...please wait...'' []] @
           concat (map (\<lambda>i. [SleepFor 1,
                             LogInfo ''%.1f seconds left...''
                               [Dbl (dsub (hw_start_sec this) (double_of_int (int i)))]])
                     [0..<iterations (hw_start_sec this)]) @
           [LogInfo ''System Successfully started!'' []]"
    and "sleeps (events_of (on_activate this)) = iterations (hw_start_sec this)"
    and "countdown_logs (events_of (on_activate this)) = iterations (hw_start_sec this)"
proof -
  note run = on_activate_completes [OF assms]
  show "returned (on_activate this) = Some SUCCESS"
    by (simp add: run returned_def)
  show "events_of (on_activate this) =
           [LogInfo ''Starting ...please wait...'' []] @
           concat (map (\<lambda>i. [SleepFor 1,
                             LogInfo ''%.1f seconds left...''
                               [Dbl (dsub (hw_start_sec this) (double_of_int (int i)))]])
                     [0..<iterations (hw_start_sec this)]) @
           [LogInfo ''System Successfully started!'' []]"
    by (simp add: run events_of_def countdown_events_def countdown_body_def)
  show "sleeps (events_of (on_activate this)) = iterations (hw_start_sec this)"
    by (simp add: run events_of_def sleeps_append sleeps_countdown sleeps_Cons sleeps_Nil)
  show "countdown_logs (events_of (on_activate this)) = iterations (hw_start_sec this)"
    by (simp add: run events_of_def countdown_logs_append countdown_logs_countdown
        countdown_logs_Cons countdown_logs_Nil)
qed

lemma on_deactivate_events:
  assumes "\<not> overflows (hw_stop_sec this)"
  shows "returned (on_deactivate this) = Some SUCCESS"
    and "events_of (on_deactivate this) =
           [LogInfo ''Stopping ...please wait...'' []] @
           concat (map (\<lambda>i. [SleepFor 1,
                             LogInfo ''%.1f seconds left...''
                               [Dbl (dsub (hw_stop_sec this) (double_of_int (int i)))]])
                     [0..<iterations (hw_stop_sec this)]) @
           [LogInfo ''System successfully stopped!'' []]"
    and "sleeps (events_of (on_deactivate this)) = iterations (hw_stop_sec this)"
    and "countdown_logs (events_of (on_deactivate this)) = iterations (hw_stop_sec this)"
proof -
  note run = on_deactivate_completes [OF assms]
  show "returned (on_deactivate this) = Some SUCCESS"
    by (simp add: run returned_def)
  show "events_of (on_deactivate this) =
           [LogInfo ''Stopping ...please wait...'' []] @
           concat (map (\<lambda>i. [SleepFor 1,
                             LogInfo ''%.1f seconds left...''
                               [Dbl (dsub (hw_stop_sec this) (double_of_int (int i)))]])
                     [0..<iterations (hw_stop_sec this)]) @
           [LogInfo ''System successfully stopped!'' []]"
    by (simp add: run events_of_def countdown_events_def countdown_body_def)
  show "sleeps (events_of (on_deactivate this)) = iterations (hw_stop_sec this)"
    by (simp add: run events_of_def sleeps_append sleeps_countdown sleeps_Cons sleeps_Nil)
  show "countdown_logs (events_of (on_deactivate this)) = iterations (hw_stop_sec this)"
    by (simp add: run events_of_def countdown_logs_append countdown_logs_countdown
        countdown_logs_Cons countdown_logs_Nil)
qed

text \<open>
  C4, as amended. The configured duration is a double and need not be whole. When it is
  not above \<^verbatim>\<open>INT_MAX\<close>, \<^verbatim>\<open>on_activate\<close> returns \<^verbatim>\<open>SUCCESS\<close> after one one-second sleep and
  one countdown log line for every \<^verbatim>\<open>int\<close> \<open>i \<ge> 0\<close> below the start duration, in this
  order, between the two fixed log lines; that is \<open>\<lceil>d\<rceil>\<close> times for a positive duration
  \<open>d\<close> and never for a negative one or a NaN. \<^verbatim>\<open>on_deactivate\<close> does the same with the
  stop duration. For a whole number \<open>n\<close> of seconds up to \<^verbatim>\<open>INT_MAX\<close> that is exactly \<open>n\<close>
  times.
\<close>

theorem countdown_seconds:
  "(\<not> overflows (hw_start_sec this) \<longrightarrow>
      returned (on_activate this) = Some SUCCESS \<and>
      events_of (on_activate this) =
        [LogInfo ''Starting ...please wait...'' []] @
        concat (map (\<lambda>i. [SleepFor 1,
                          LogInfo ''%.1f seconds left...''
                            [Dbl (dsub (hw_start_sec this) (double_of_int (int i)))]])
                  [0..<iterations (hw_start_sec this)]) @
        [LogInfo ''System Successfully started!'' []] \<and>
      sleeps (events_of (on_activate this)) = iterations (hw_start_sec this) \<and>
      countdown_logs (events_of (on_activate this)) = iterations (hw_start_sec this)) \<and>
   (\<not> overflows (hw_stop_sec this) \<longrightarrow>
      returned (on_deactivate this) = Some SUCCESS \<and>
      events_of (on_deactivate this) =
        [LogInfo ''Stopping ...please wait...'' []] @
        concat (map (\<lambda>i. [SleepFor 1,
                          LogInfo ''%.1f seconds left...''
                            [Dbl (dsub (hw_stop_sec this) (double_of_int (int i)))]])
                  [0..<iterations (hw_stop_sec this)]) @
        [LogInfo ''System successfully stopped!'' []] \<and>
      sleeps (events_of (on_deactivate this)) = iterations (hw_stop_sec this) \<and>
      countdown_logs (events_of (on_deactivate this)) = iterations (hw_stop_sec this)) \<and>
   (int n \<le> INT_MAX \<longrightarrow>
      \<not> overflows (double_of_int (int n)) \<and> iterations (double_of_int (int n)) = n)"
  using on_activate_events [of this] on_deactivate_events [of this]
  by (simp add: not_overflows_int iterations_int)

theorem countdown_seconds_witness:
  "\<not> overflows (hw_start_sec (rrbot NaN NaN (Num False 2))) \<and>
   \<not> overflows (hw_stop_sec (rrbot NaN NaN (Num False 2))) \<and>
   hw_start_sec (rrbot NaN NaN (Num False 2)) = double_of_int (int 2) \<and>
   hw_stop_sec (rrbot NaN NaN (Num False 2)) = double_of_int (int 3) \<and>
   returned (on_activate (rrbot NaN NaN (Num False 2))) = Some SUCCESS \<and>
   sleeps (events_of (on_activate (rrbot NaN NaN (Num False 2)))) = 2 \<and>
   countdown_logs (events_of (on_activate (rrbot NaN NaN (Num False 2)))) = 2 \<and>
   returned (on_deactivate (rrbot NaN NaN (Num False 2))) = Some SUCCESS \<and>
   sleeps (events_of (on_deactivate (rrbot NaN NaN (Num False 2)))) = 3 \<and>
   countdown_logs (events_of (on_deactivate (rrbot NaN NaN (Num False 2)))) = 3"
proof -
  let ?X = "rrbot NaN NaN (Num False 2)"
  have a: "hw_start_sec ?X = double_of_int (int 2)" and b: "hw_stop_sec ?X = double_of_int (int 3)"
    by (simp_all add: rrbot_def double_of_int_def)
  have c: "\<not> overflows (hw_start_sec ?X)" and d: "\<not> overflows (hw_stop_sec ?X)"
    by (simp_all add: rrbot_def overflows_def double_of_int_def sval_def INT_MAX_def)
  have e: "iterations (hw_start_sec ?X) = 2" and f: "iterations (hw_stop_sec ?X) = 3"
    by (simp_all add: rrbot_def sval_def)
  from countdown_seconds [of ?X 0] c d
  have "returned (on_activate ?X) = Some SUCCESS \<and>
        sleeps (events_of (on_activate ?X)) = iterations (hw_start_sec ?X) \<and>
        countdown_logs (events_of (on_activate ?X)) = iterations (hw_start_sec ?X) \<and>
        returned (on_deactivate ?X) = Some SUCCESS \<and>
        sleeps (events_of (on_deactivate ?X)) = iterations (hw_stop_sec ?X) \<and>
        countdown_logs (events_of (on_deactivate ?X)) = iterations (hw_stop_sec ?X)"
    by blast
  with a b c d e f show ?thesis
    by simp
qed

text \<open>
  C4 as stated fails: a start duration of 2.5 seconds gives three one-second sleeps, and
  with the whole number 2147483650 of seconds as stop duration \<^verbatim>\<open>on_deactivate\<close> does not
  return.
\<close>

theorem countdown_seconds_counterexample:
  "valid_double (Num False (5 / 2)) \<and> valid_double (Num False 2147483650) \<and>
   sleeps (events_of (on_activate ((rrbot NaN NaN (Num False 2))\<lparr>hw_start_sec := Num False (5 / 2)\<rparr>))) = 3 \<and>
   double_of_int 2147483650 = Num False 2147483650 \<and>
   returned (on_deactivate ((rrbot NaN NaN (Num False 2))\<lparr>hw_stop_sec := Num False 2147483650\<rparr>)) = None"
proof -
  have "\<not> overflows (Num False (5 / 2))"
    by (simp add: overflows_def double_of_int_def sval_def INT_MAX_def)
  then have "sleeps (events_of (on_activate ((rrbot NaN NaN (Num False 2))\<lparr>hw_start_sec := Num False (5 / 2)\<rparr>)))
     = iterations (Num False (5 / 2))"
    using on_activate_events(3) [of "(rrbot NaN NaN (Num False 2))\<lparr>hw_start_sec := Num False (5 / 2)\<rparr>"]
    by simp
  moreover have "iterations (Num False (5 / 2)) = 3"
    by (simp add: sval_def)
  moreover have "overflows (Num False 2147483650)"
    by (simp add: overflows_def double_of_int_def sval_def INT_MAX_def)
  then have "on_deactivate ((rrbot NaN NaN (Num False 2))\<lparr>hw_stop_sec := Num False 2147483650\<rparr>) =
      Inl SignedOverflow"
    by (simp add: on_deactivate_overflow)
  ultimately show ?thesis
    by (simp add: returned_def double_of_int_def representable_5_2 representable_2147483650)
qed

text \<open>
  C5. The countdown has no cancellation path and should run to completion for every
  finite duration. At the finite duration \<open>2\<^sup>3\<^sup>1\<close> seconds the code does not: every \<^verbatim>\<open>int\<close>
  is below it, the loop cannot end by its condition, and the counter is incremented at
  \<^verbatim>\<open>INT_MAX\<close>. Neither \<^verbatim>\<open>on_activate\<close> nor \<^verbatim>\<open>on_deactivate\<close> returns \<^verbatim>\<open>SUCCESS\<close> there.
\<close>

theorem countdown_overflow_at_2p31:
  "isfinite (Num False 2147483648) \<and> valid_double (Num False 2147483648) \<and>
   on_activate ((rrbot NaN NaN (Num False 2))\<lparr>hw_start_sec := Num False 2147483648\<rparr>) =
     Inl SignedOverflow \<and>
   on_deactivate ((rrbot NaN NaN (Num False 2))\<lparr>hw_stop_sec := Num False 2147483648\<rparr>) =
     Inl SignedOverflow"
proof -
  have "overflows (Num False 2147483648)"
    by (simp add: overflows_def double_of_int_def sval_def INT_MAX_def)
  then show ?thesis
    by (simp add: on_activate_overflow on_deactivate_overflow representable_2p31)
qed

lemma on_init_success:
  assumes "on_init base_on_init stod this hw = Inr (SUCCESS, this', evs)"
  shows "isnan (hw_joint_state this')" and "isnan (hw_joint_command this')"
    and "joints (info this') \<noteq> []"
  using assms
  by (auto simp add: on_init_def get_parameter_eq Let_def index_parameters_joints
      split: prod.splits if_splits option.splits list.splits)

lemma rrbot_info_start:
  "hardware_parameters rrbot_info ''example_param_hw_start_duration_sec'' = Some ''2.0''"
  by (simp add: rrbot_info_def)

lemma rrbot_info_stop:
  "hardware_parameters rrbot_info ''example_param_hw_stop_duration_sec'' = Some ''3.0''"
  by (simp add: rrbot_info_def)

lemma rrbot_info_slowdown:
  "hardware_parameters rrbot_info ''example_param_hw_slowdown'' = Some ''2.0''"
  by (simp add: rrbot_info_def)

lemma rrbot_info_joints: "joints rrbot_info = [joint1]"
  by (simp add: rrbot_info_def)

lemma on_init_rrbot:
  "on_init framework_on_init stod_example fresh_object rrbot_info =
     Inr (SUCCESS, rrbot NaN NaN (Num False 2), [])"
  by (simp add: on_init_def framework_on_init_def get_parameter_def index_parameters_def
      rrbot_info_start rrbot_info_stop rrbot_info_slowdown rrbot_info_joints stod_example_def
      fresh_object_def rrbot_def joint1_def position_interface_def HW_IF_POSITION_def)

text \<open>
  C9. A successful \<^verbatim>\<open>on_init\<close> leaves the joint state NaN. \<^verbatim>\<open>on_activate\<close>, when its
  countdown completes, sets the joint state and the joint command to 0 if the state is
  NaN, and leaves the whole object unchanged if the state is not NaN.
\<close>

theorem on_activate_defaults:
  "(on_init base_on_init stod this0 hw = Inr (SUCCESS, this, evs) \<longrightarrow>
      isnan (hw_joint_state this)) \<and>
   (\<not> overflows (hw_start_sec this) \<longrightarrow>
      (isnan (hw_joint_state this) \<longrightarrow>
         object_after (on_activate this) =
           Some (this\<lparr>hw_joint_state := Num False 0, hw_joint_command := Num False 0\<rparr>)) \<and>
      (\<not> isnan (hw_joint_state this) \<longrightarrow> object_after (on_activate this) = Some this))"
  using on_init_success(1) [of base_on_init stod this0 hw this evs] on_activate_completes [of this]
  by (simp add: object_after_def)

theorem on_activate_defaults_witness:
  "on_init framework_on_init stod_example fresh_object rrbot_info =
     Inr (SUCCESS, rrbot NaN NaN (Num False 2), []) \<and>
   isnan (hw_joint_state (rrbot NaN NaN (Num False 2))) \<and>
   \<not> overflows (hw_start_sec (rrbot NaN NaN (Num False 2))) \<and>
   object_after (on_activate (rrbot NaN NaN (Num False 2))) =
     Some (rrbot (Num False 0) (Num False 0) (Num False 2)) \<and>
   \<not> isnan (hw_joint_state (rrbot (Num False 1) NaN (Num False 2))) \<and>
   object_after (on_activate (rrbot (Num False 1) NaN (Num False 2))) =
     Some (rrbot (Num False 1) NaN (Num False 2))"
proof -
  have a: "\<not> overflows (hw_start_sec (rrbot s c d))" for s c d
    by (simp add: rrbot_def overflows_def double_of_int_def sval_def INT_MAX_def)
  show ?thesis
    using on_activate_defaults [of framework_on_init stod_example fresh_object rrbot_info
        "rrbot NaN NaN (Num False 2)" "[]"]
      on_activate_defaults [of framework_on_init stod_example fresh_object rrbot_info
        "rrbot (Num False 1) NaN (Num False 2)" "[]"]
      a on_init_rrbot
    by (simp add: rrbot_def)
qed

section \<open>The simulation step of \<^verbatim>\<open>read\<close>\<close>

lemma read_state:
  assumes "joints (info this) \<noteq> []"
  shows "state_after (read this) =
           Some (dadd (hw_joint_state this)
                   (ddiv (dsub (hw_joint_command this) (hw_joint_state this)) (hw_slowdown this)))"
  using assms
  by (cases "joints (info this)") (simp_all add: read_def state_after_def object_after_def)

lemma sval_not: "sval (\<not> a) m = - sval a m"
  by (simp add: sval_def)

lemma sval_eq_0: "sval a m = 0 \<longleftrightarrow> m = 0"
  by (simp add: sval_def)

lemma sval_zero: "sval w 0 = 0"
  by (simp add: sval_def)

lemma dsub_equal:
  assumes "sval b m' = sval a m"
  shows "dsub (Num b m') (Num a m) = Num (b \<and> \<not> a) 0"
  using assms by (simp add: dsub_def sval_not)

lemma ddiv_zero:
  assumes "\<not> isnan d" and "\<not> deq d (Num False 0)"
  shows "\<exists>w. ddiv (Num z 0) d = Num w 0"
  using assms by (cases d) (simp_all add: round_double_zero sval_eq_0 sval_zero)

lemma dadd_zero:
  assumes "representable m"
  shows "dadd (Num a m) (Num w 0) = (if m = 0 then Num (a \<and> w) 0 else Num a m)"
proof (cases "m = 0")
  case True
  then show ?thesis by (simp add: sval_zero)
next
  case False
  with assms have pos: "0 < m" by (simp add: representable_def)
  then have n: "sval a m < 0 \<longleftrightarrow> a" and m: "\<bar>sval a m\<bar> = m"
    by (simp_all add: sval_def)
  from False have "dadd (Num a m) (Num w 0) = round_double (sval a m < 0) \<bar>sval a m\<bar>"
    by (simp add: sval_zero sval_eq_0 Let_def)
  also have "\<dots> = round_double a m"
    by (simp only: n m)
  also have "\<dots> = Num a m"
    using assms by (rule round_double_representable)
  finally show ?thesis using False by simp
qed

lemma update_at_rest:
  assumes "representable m" and "sval b m' = sval a m"
    and "\<not> isnan d" and "\<not> deq d (Num False 0)"
  shows "\<exists>w. dadd (Num a m) (ddiv (dsub (Num b m') (Num a m)) d) =
           (if m = 0 then Num w 0 else Num a m)"
proof -
  from ddiv_zero [OF assms(3,4)] obtain w where w: "ddiv (Num (b \<and> \<not> a) 0) d = Num w 0"
    by blast
  have "dadd (Num a m) (ddiv (dsub (Num b m') (Num a m)) d) = dadd (Num a m) (Num w 0)"
    by (simp only: dsub_equal [OF assms(2)] w)
  also have "\<dots> = (if m = 0 then Num (a \<and> w) 0 else Num a m)"
    by (rule dadd_zero [OF assms(1)])
  finally show ?thesis by auto
qed

text \<open>
  C6, as amended. When the joint state is a finite double, the command is equal to it
  (\<^verbatim>\<open>==\<close>) and the slowdown is neither zero nor NaN, \<^verbatim>\<open>read\<close> leaves the state equal to
  what it was (\<^verbatim>\<open>==\<close>), and identical unless it is a zero, whose sign may change.
\<close>

theorem read_fixed_point:
  assumes "joints (info this) \<noteq> []"
    and "isfinite (hw_joint_state this)" and "valid_double (hw_joint_state this)"
    and "isfinite (hw_joint_command this)"
    and "deq (hw_joint_state this) (hw_joint_command this)"
    and "\<not> isnan (hw_slowdown this)" and "\<not> deq (hw_slowdown this) (Num False 0)"
  shows "\<exists>x. state_after (read this) = Some x \<and> deq x (hw_joint_state this) \<and>
           (\<not> deq (hw_joint_state this) (Num False 0) \<longrightarrow> x = hw_joint_state this)"
proof -
  from assms(2) obtain a m where s: "hw_joint_state this = Num a m"
    by (cases "hw_joint_state this") simp_all
  from assms(4) obtain b m' where c: "hw_joint_command this = Num b m'"
    by (cases "hw_joint_command this") simp_all
  from assms(3) s have r: "representable m" by simp
  from assms(5) s c have e: "sval b m' = sval a m" by simp
  from update_at_rest [OF r e assms(6,7)] obtain w where
    "dadd (Num a m) (ddiv (dsub (Num b m') (Num a m)) (hw_slowdown this)) =
       (if m = 0 then Num w 0 else Num a m)"
    by blast
  with read_state [OF assms(1)] s c show ?thesis
    by (simp add: sval_eq_0) (simp add: sval_def)
qed

theorem read_fixed_point_witness:
  "joints (info (rrbot (Num False 1) (Num False 1) (Num False 2))) \<noteq> [] \<and>
   valid_double (Num False 1) \<and> deq (Num False 1) (Num False 1) \<and>
   \<not> deq (Num False 2) (Num False 0) \<and>
   state_after (read (rrbot (Num False 1) (Num False 1) (Num False 2))) = Some (Num False 1)"
proof -
  let ?X = "rrbot (Num False 1) (Num False 1) (Num False 2)"
  have j: "joints (info ?X) \<noteq> []" by (simp add: rrbot_joints)
  have f: "hw_joint_state ?X = Num False 1" "hw_joint_command ?X = Num False 1"
    "hw_slowdown ?X = Num False 2"
    by (simp_all add: rrbot_def)
  have n: "\<not> deq (Num False 1) (Num False 0)" "\<not> deq (Num False 2) (Num False 0)"
    by (simp_all add: sval_def)
  from read_fixed_point [of ?X] j n show ?thesis
    by (auto simp add: f representable_1)
qed

lemma read_nan_slowdown:
  "state_after (read (rrbot (Num False 1) (Num False 1) NaN)) = Some NaN"
  by (simp add: read_state rrbot_joints) (simp add: rrbot_def dsub_def sval_def)

lemma read_infinite_state:
  "state_after (read (rrbot (Infty False) (Infty False) (Num False 2))) = Some NaN"
  by (simp add: read_state rrbot_joints) (simp add: rrbot_def dsub_def)

lemma read_negative_zero:
  "state_after (read (rrbot (Num True 0) (Num True 0) (Num False 2))) = Some (Num False 0)"
  by (simp add: read_state rrbot_joints)
     (simp add: rrbot_def dsub_def sval_def round_double_zero)

text \<open>
  C6 as stated fails: a NaN slowdown is different from zero (\<^verbatim>\<open>!=\<close>) and turns the state
  1, equal to the command, into NaN; and with the slowdown 2 an infinite state equal to
  the command becomes NaN.
\<close>

theorem read_fixed_point_counterexample:
  "\<not> deq NaN (Num False 0) \<and> deq (Num False 1) (Num False 1) \<and>
   state_after (read (rrbot (Num False 1) (Num False 1) NaN)) = Some NaN \<and>
   \<not> deq (Num False 2) (Num False 0) \<and> deq (Infty False) (Infty False) \<and>
   state_after (read (rrbot (Infty False) (Infty False) (Num False 2))) = Some NaN"
  by (simp add: read_nan_slowdown read_infinite_state) (simp add: sval_def)

lemma representable_quarter: "representable (1 / 4)"
  using representable_grid [of 1 "- 2"] by simp

lemma step_0_1_quarter:
  "dadd (Num False 0) (ddiv (dsub (Num False 1) (Num False 0)) (Num False (1 / 4))) = Num False 4"
  by (simp add: dsub_def sval_def round_double_representable representable_1 representable_4)

lemma quantum_subnormal:
  assumes "0 < x" and "x < 2 powi (- 1022)"
  shows "quantum x = 2 powi (- 1074)"
proof -
  have "ilog2 x < - 1022"
  proof (rule ccontr)
    assume "\<not> ilog2 x < - 1022"
    then have "(2::real) powi (- 1022) \<le> 2 powi (ilog2 x)"
      by (intro power_int_increasing) simp_all
    with ilog2_lower [OF assms(1)] assms(2) show False by linarith
  qed
  then show ?thesis by (simp add: quantum_def)
qed

lemma round_half_even_half: "round_half_even (1 / 2) = 0"
  by (simp add: round_half_even_def)

lemma denorm_min_pos: "0 < denorm_min"
  by (simp add: denorm_min_def)

lemma representable_denorm_min: "representable denorm_min"
  using representable_grid [of 1 "- 1074"] by (simp add: denorm_min_def)

lemma round_half_denorm_min: "round_double s (denorm_min / 2) = Num s 0"
proof -
  let ?x = "denorm_min / 2"
  have "?x < denorm_min" using denorm_min_pos by simp
  also have "\<dots> \<le> 2 powi (- 1022)"
    unfolding denorm_min_def by (intro power_int_increasing) simp_all
  finally have "quantum ?x = denorm_min"
    unfolding denorm_min_def [symmetric]
    using denorm_min_pos by (subst quantum_subnormal) (simp_all add: denorm_min_def)
  moreover have "?x / denorm_min = 1 / 2"
    using denorm_min_pos by simp
  ultimately have "round_mag ?x = 0"
    by (simp add: round_mag_def round_half_even_half)
  then show ?thesis by (simp add: round_double_def)
qed

lemma step_0_min_2:
  "dadd (Num False 0) (ddiv (dsub (Num False denorm_min) (Num False 0)) (Num False 2))
     = Num False 0"
proof -
  have "dsub (Num False denorm_min) (Num False 0) = Num False denorm_min"
    using denorm_min_pos
    by (simp add: dsub_def sval_def round_double_representable representable_denorm_min)
  moreover have "ddiv (Num False denorm_min) (Num False 2) = Num False 0"
    using round_half_denorm_min [of False] by simp
  ultimately show ?thesis by (simp add: sval_def)
qed

text \<open>
  How the rounded update moves the state. Rounding does not cross a double; the
  difference of two doubles that is not itself a double is large against both of them;
  so with a slowdown of at least 1 the new state lies between the old state and a point
  less far beyond the command than the old state was before it.
\<close>

lemma round_mag_nonneg: "0 \<le> x \<Longrightarrow> 0 \<le> round_mag x"
proof -
  assume "0 \<le> x"
  then have "0 \<le> x / quantum x" using quantum_pos [of x] by simp
  then have "0 \<le> round_half_even (x / quantum x)" using round_half_even_ge [of 0] by simp
  then show ?thesis using quantum_pos [of x] by (simp add: round_mag_def)
qed

lemma ilog2_mono:
  assumes "0 < x" and "x \<le> y"
  shows "ilog2 x \<le> ilog2 y"
proof (rule ccontr)
  assume "\<not> ilog2 x \<le> ilog2 y"
  then have "(2::real) powi (ilog2 y + 1) \<le> 2 powi (ilog2 x)"
    by (intro power_int_increasing) simp_all
  moreover from assms have "0 < y" by simp
  ultimately show False
    using ilog2_lower [OF assms(1)] ilog2_upper [OF \<open>0 < y\<close>] assms(2) by linarith
qed

lemma quantum_top: "quantum x * 2 ^ 53 = 2 powi (max (ilog2 x) (- 1022) + 1)"
proof -
  have "2 powi (max (ilog2 x) (- 1022) + 1) = 2 powi (max (ilog2 x) (- 1022) - 52) * (2::real) ^ 53"
    by (rule two_powi_shift) simp
  then show ?thesis by (simp add: quantum_def)
qed

lemma quantum_bottom: "quantum x * 2 ^ 52 = 2 powi (max (ilog2 x) (- 1022))"
proof -
  have "2 powi (max (ilog2 x) (- 1022)) = 2 powi (max (ilog2 x) (- 1022) - 52) * (2::real) ^ 52"
    by (rule two_powi_shift) simp
  then show ?thesis by (simp add: quantum_def)
qed

lemma round_mag_le_top:
  assumes "0 \<le> x"
  shows "round_mag x \<le> 2 powi (max (ilog2 x) (- 1022) + 1)"
proof (cases "x = 0")
  case True
  then show ?thesis by (simp add: round_mag_zero)
next
  case False
  with assms have pos: "0 < x" by simp
  have "x / quantum x \<le> of_int (2 ^ 53)" using mantissa_upper [OF pos] by simp
  then have "round_half_even (x / quantum x) \<le> 2 ^ 53" by (rule round_half_even_le)
  then have "real_of_int (round_half_even (x / quantum x)) \<le> 2 ^ 53"
    by (metis of_int_le_iff of_int_numeral of_int_power)
  then have "round_mag x \<le> 2 ^ 53 * quantum x"
    unfolding round_mag_def using quantum_pos [of x] by (intro mult_right_mono) simp_all
  then show ?thesis using quantum_top [of x] by (simp add: mult.commute)
qed

lemma round_mag_ge_bottom:
  assumes "0 < x" and "- 1022 \<le> ilog2 x"
  shows "2 powi (ilog2 x) \<le> round_mag x"
proof -
  have "of_int (2 ^ 52) \<le> x / quantum x" using mantissa_lower [OF assms] by simp
  then have "2 ^ 52 \<le> round_half_even (x / quantum x)" by (rule round_half_even_ge)
  then have "(2::real) ^ 52 \<le> of_int (round_half_even (x / quantum x))"
    by (metis of_int_le_iff of_int_numeral of_int_power)
  then have "2 ^ 52 * quantum x \<le> round_mag x"
    unfolding round_mag_def using quantum_pos [of x] by (intro mult_right_mono) simp_all
  moreover from assms(2) have "max (ilog2 x) (- 1022) = ilog2 x" by simp
  ultimately show ?thesis using quantum_bottom [of x] by (simp add: mult.commute)
qed

lemma quantum_eq_iff:
  "max (ilog2 x) (- 1022) = max (ilog2 y) (- 1022) \<Longrightarrow> quantum x = quantum y"
  by (simp add: quantum_def)

text \<open>Rounding does not cross a double.\<close>

lemma round_mag_ge_double:
  assumes "representable r" and "r \<le> y"
  shows "r \<le> round_mag y"
proof (cases "r = 0")
  case True
  with assms show ?thesis using round_mag_nonneg [of y] by simp
next
  case False
  with assms have rpos: "0 < r" and ypos: "0 < y" by (simp_all add: representable_def)
  have le: "max (ilog2 r) (- 1022) \<le> max (ilog2 y) (- 1022)"
    using ilog2_mono [OF rpos assms(2)] by simp
  show ?thesis
  proof (cases "max (ilog2 r) (- 1022) = max (ilog2 y) (- 1022)")
    case True
    then have q: "quantum r = quantum y" by (rule quantum_eq_iff)
    from assms(1) have "r = of_int (round_half_even (r / quantum r)) * quantum y"
      by (simp add: representable_def round_mag_def q)
    then obtain n :: int where r: "r = of_int n * quantum y" ..
    let ?n = n
    have "of_int ?n = r / quantum y" using quantum_pos [of y] by (simp add: r)
    also have "\<dots> \<le> y / quantum y"
      using assms(2) quantum_pos [of y] by (simp add: divide_right_mono)
    finally have "?n \<le> round_half_even (y / quantum y)" by (rule round_half_even_ge)
    then have "of_int ?n * quantum y \<le> round_mag y"
      unfolding round_mag_def using quantum_pos [of y] by (intro mult_right_mono) simp_all
    with r show ?thesis by simp
  next
    case False
    with le have lt: "max (ilog2 r) (- 1022) < max (ilog2 y) (- 1022)" by linarith
    then have n: "- 1022 \<le> ilog2 y" and m: "max (ilog2 y) (- 1022) = ilog2 y" by linarith+
    have "r < 2 powi (ilog2 r + 1)" by (rule ilog2_upper [OF rpos])
    also have "\<dots> \<le> 2 powi (ilog2 y)"
    proof (intro power_int_increasing)
      from lt m show "ilog2 r + 1 \<le> ilog2 y" by linarith
    qed simp
    also have "\<dots> \<le> round_mag y" by (rule round_mag_ge_bottom [OF ypos n])
    finally show ?thesis by simp
  qed
qed

lemma round_mag_le_double:
  assumes "representable r" and "0 \<le> y" and "y \<le> r"
  shows "round_mag y \<le> r"
proof (cases "y = 0")
  case True
  with assms show ?thesis by (simp add: round_mag_zero)
next
  case False
  with assms have ypos: "0 < y" and rpos: "0 < r" by simp_all
  have le: "max (ilog2 y) (- 1022) \<le> max (ilog2 r) (- 1022)"
    using ilog2_mono [OF ypos assms(3)] by simp
  show ?thesis
  proof (cases "max (ilog2 y) (- 1022) = max (ilog2 r) (- 1022)")
    case True
    then have q: "quantum r = quantum y" by (simp add: quantum_def)
    from assms(1) have "r = of_int (round_half_even (r / quantum r)) * quantum y"
      by (simp add: representable_def round_mag_def q)
    then obtain n :: int where r: "r = of_int n * quantum y" ..
    let ?n = n
    have "y / quantum y \<le> r / quantum y"
      using assms(3) quantum_pos [of y] by (simp add: divide_right_mono)
    also have "\<dots> = of_int ?n" using quantum_pos [of y] by (simp add: r)
    finally have "round_half_even (y / quantum y) \<le> ?n" by (rule round_half_even_le)
    then have "round_mag y \<le> of_int ?n * quantum y"
      unfolding round_mag_def using quantum_pos [of y] by (intro mult_right_mono) simp_all
    with r show ?thesis by simp
  next
    case False
    with le have lt: "max (ilog2 y) (- 1022) < max (ilog2 r) (- 1022)" by linarith
    then have m: "max (ilog2 r) (- 1022) = ilog2 r" by linarith
    have "round_mag y \<le> 2 powi (max (ilog2 y) (- 1022) + 1)"
      by (rule round_mag_le_top [OF assms(2)])
    also have "\<dots> \<le> 2 powi (ilog2 r)"
    proof (intro power_int_increasing)
      from lt m show "max (ilog2 y) (- 1022) + 1 \<le> ilog2 r" by linarith
    qed simp
    also have "\<dots> \<le> r" by (rule ilog2_lower [OF rpos])
    finally show ?thesis .
  qed
qed

lemma rnd_zero: "rnd 0 = 0"
  by (simp add: rnd_def round_mag_zero)

lemma rnd_uminus: "rnd (- v) = - rnd v"
  by (cases "v = 0") (auto simp add: rnd_def round_mag_zero)

lemma rnd_nonneg: "0 \<le> v \<Longrightarrow> rnd v = round_mag v"
  by (simp add: rnd_def)

lemma rnd_ge_double:
  assumes "representable \<bar>r\<bar>" and "r \<le> y"
  shows "r \<le> rnd y"
proof (cases "0 \<le> y")
  case True
  show ?thesis
  proof (cases "0 \<le> r")
    case True
    with assms \<open>0 \<le> y\<close> show ?thesis
      using round_mag_ge_double [of r y] by (simp add: rnd_def)
  next
    case False
    with \<open>0 \<le> y\<close> show ?thesis
      using round_mag_nonneg [of y] by (simp add: rnd_def)
  qed
next
  case False
  with assms have "representable (- r)" and "0 \<le> - y" and "- y \<le> - r" by simp_all
  then have "round_mag (- y) \<le> - r" by (rule round_mag_le_double)
  with False show ?thesis by (simp add: rnd_def)
qed

lemma rnd_le_double:
  assumes "representable \<bar>r\<bar>" and "y \<le> r"
  shows "rnd y \<le> r"
proof -
  from assms have "representable \<bar>- r\<bar>" and "- r \<le> - y" by simp_all
  then have "- r \<le> rnd (- y)" by (rule rnd_ge_double)
  then show ?thesis by (simp add: rnd_uminus)
qed

lemma rnd_double: "representable \<bar>r\<bar> \<Longrightarrow> rnd r = r"
  using rnd_ge_double [of r r] rnd_le_double [of r r] by simp

lemma quantum_le:
  assumes "0 < y" and "y \<le> B" and "2 powi (- 1022) \<le> B"
  shows "quantum y \<le> B / 2 ^ 52"
proof -
  have "2 powi (max (ilog2 y) (- 1022)) \<le> B"
  proof (cases "- 1022 \<le> ilog2 y")
    case True
    then have "max (ilog2 y) (- 1022) = ilog2 y" by simp
    with ilog2_lower [OF assms(1)] assms(2) show ?thesis by simp
  next
    case False
    then have "max (ilog2 y) (- 1022) = - 1022" by simp
    with assms(3) show ?thesis by (simp only:)
  qed
  then have "quantum y * 2 ^ 52 \<le> B" by (simp only: quantum_bottom)
  then show ?thesis by (simp add: field_simps)
qed

lemma rnd_error:
  assumes "\<bar>w\<bar> \<le> B" and "2 powi (- 1022) \<le> B"
  shows "\<bar>rnd w - w\<bar> \<le> B / 2 ^ 53"
proof (cases "w = 0")
  case True
  have "(0::real) < 2 powi (- 1022)" by simp
  with assms(2) have "0 \<le> B" by linarith
  with True show ?thesis by (simp add: rnd_zero)
next
  case False
  then have pos: "0 < \<bar>w\<bar>" by simp
  have "\<bar>rnd w - w\<bar> = \<bar>round_mag \<bar>w\<bar> - \<bar>w\<bar>\<bar>"
  proof (cases "w < 0")
    case True
    then have "rnd w - w = - (round_mag \<bar>w\<bar> - \<bar>w\<bar>)" by (simp add: rnd_def)
    then show ?thesis by (simp only: abs_minus_cancel)
  next
    case False
    then show ?thesis by (simp add: rnd_def)
  qed
  also have "\<dots> \<le> quantum \<bar>w\<bar> / 2" by (rule round_mag_near)
  also have "\<dots> \<le> (B / 2 ^ 52) / 2"
    using quantum_le [OF pos assms] by simp
  finally show ?thesis by simp
qed

lemma signed_grid:
  assumes "representable \<bar>r\<bar>"
  shows "\<exists>k e. r = of_int k * 2 powi e \<and> \<bar>k\<bar> < 2 ^ 53 \<and> - 1074 \<le> e \<and> e \<le> 971"
proof -
  from assms obtain k e where g: "\<bar>r\<bar> = of_int k * 2 powi e" "0 \<le> k" "k < 2 ^ 53"
    "- 1074 \<le> e" "e \<le> 971"
    unfolding representable_iff by blast
  show ?thesis
  proof (cases "0 \<le> r")
    case True
    with g(1) have "r = of_int k * 2 powi e" by simp
    moreover from g have "\<bar>k\<bar> < 2 ^ 53" by simp
    ultimately show ?thesis using g(4,5) by blast
  next
    case False
    with g(1) have "r = of_int (- k) * 2 powi e" by simp
    moreover from g have "\<bar>- k\<bar> < 2 ^ 53" by simp
    ultimately show ?thesis using g(4,5) by blast
  qed
qed

lemma fine_difference:
  assumes "x = of_int X * 2 powi e" and "- 1074 \<le> e" and "e \<le> 971"
    and "y = of_int Y * 2 powi e'" and "e \<le> e'"
    and "\<not> representable \<bar>y - x\<bar>"
  shows "2 ^ 53 * 2 powi e \<le> \<bar>y - x\<bar>"
proof -
  let ?K = "Y * 2 ^ nat (e' - e) - X"
  have "(2::real) powi e' = 2 powi e * 2 ^ nat (e' - e)"
    using assms(5) by (intro two_powi_shift) simp
  then have "y - x = of_int ?K * 2 powi e"
    by (simp add: assms(1,4) algebra_simps)
  then have d: "\<bar>y - x\<bar> = of_int \<bar>?K\<bar> * 2 powi e"
    by (simp add: abs_mult)
  have "\<not> \<bar>?K\<bar> < 2 ^ 53"
  proof
    assume "\<bar>?K\<bar> < 2 ^ 53"
    then have "representable (of_int \<bar>?K\<bar> * 2 powi e)"
      using assms(2,3) by (intro representable_grid) simp_all
    with d assms(6) show False by simp
  qed
  then have "2 ^ 53 \<le> \<bar>?K\<bar>" by simp
  then have "(2::real) ^ 53 \<le> of_int \<bar>?K\<bar>"
    by (metis of_int_le_iff of_int_numeral of_int_power)
  then have "2 ^ 53 * 2 powi e \<le> of_int \<bar>?K\<bar> * (2::real) powi e"
    by (intro mult_right_mono) simp_all
  with d show ?thesis by simp
qed

lemma difference_large:
  assumes "representable \<bar>s\<bar>" and "representable \<bar>c\<bar>" and "s < c"
    and "\<not> representable (c - s)"
  shows "\<bar>s\<bar> < 2 * (c - s)" and "\<bar>c\<bar> < 2 * (c - s)" and "2 powi (- 1021) \<le> c - s"
proof -
  from signed_grid [OF assms(1)] obtain S a where
    s: "s = of_int S * 2 powi a" "\<bar>S\<bar> < 2 ^ 53" "- 1074 \<le> a" "a \<le> 971" by blast
  from signed_grid [OF assms(2)] obtain C b where
    c: "c = of_int C * 2 powi b" "\<bar>C\<bar> < 2 ^ 53" "- 1074 \<le> b" "b \<le> 971" by blast
  from assms(3) have pos: "\<bar>c - s\<bar> = c - s" and pos': "\<bar>s - c\<bar> = c - s" by simp_all
  have low: "(2::real) powi (- 1021) \<le> 2 ^ 53 * 2 powi e" if "- 1074 \<le> e" for e :: int
  proof -
    have "(2::real) powi (e + 53) = 2 powi e * 2 ^ 53"
      by (rule two_powi_shift) simp
    moreover from that have "(2::real) powi (- 1021) \<le> 2 powi (e + 53)"
      by (intro power_int_increasing) simp_all
    ultimately show ?thesis by (simp add: mult.commute)
  qed
  have small: "\<bar>of_int K * 2 powi e\<bar> < 2 ^ 53 * (2::real) powi e" if "\<bar>K\<bar> < 2 ^ 53"
    for K e :: int
  proof -
    from that have "real_of_int \<bar>K\<bar> < 2 ^ 53"
      by (metis of_int_less_iff of_int_numeral of_int_power)
    then have "real_of_int \<bar>K\<bar> * 2 powi e < 2 ^ 53 * 2 powi e"
      by (intro mult_strict_right_mono) simp_all
    then show ?thesis by (simp add: abs_mult)
  qed
  show "\<bar>s\<bar> < 2 * (c - s)" and "\<bar>c\<bar> < 2 * (c - s)" and "2 powi (- 1021) \<le> c - s"
  proof -
    have "\<bar>s\<bar> < 2 * (c - s) \<and> \<bar>c\<bar> < 2 * (c - s) \<and> 2 powi (- 1021) \<le> c - s"
    proof (cases "a \<le> b")
      case True
      from assms(4) pos have "\<not> representable \<bar>c - s\<bar>" by simp
      from fine_difference [OF s(1) s(3) s(4) c(1) True this] pos
      have big: "2 ^ 53 * 2 powi a \<le> c - s" by simp
      with small [OF s(2), of a] s(1) have "\<bar>s\<bar> < c - s" by simp
      moreover from low [OF s(3)] big have "2 powi (- 1021) \<le> c - s" by linarith
      ultimately show ?thesis using assms(3) by (simp add: abs_if split: if_splits)
    next
      case False
      then have le: "b \<le> a" by simp
      from assms(4) pos' have "\<not> representable \<bar>s - c\<bar>" by simp
      from fine_difference [OF c(1) c(3) c(4) s(1) le this] pos'
      have big: "2 ^ 53 * 2 powi b \<le> c - s" by simp
      with small [OF c(2), of b] c(1) have "\<bar>c\<bar> < c - s" by simp
      moreover from low [OF c(3)] big have "2 powi (- 1021) \<le> c - s" by linarith
      ultimately show ?thesis using assms(3) by (simp add: abs_if split: if_splits)
    qed
    then show "\<bar>s\<bar> < 2 * (c - s)" and "\<bar>c\<bar> < 2 * (c - s)" and "2 powi (- 1021) \<le> c - s"
      by simp_all
  qed
qed

text \<open>
  The heart of the matter: adding to a double \<open>s\<close> anything between nothing and the rounded
  difference to a double \<open>c\<close> above it lands, after rounding, at or above \<open>s\<close> and
  less far beyond \<open>c\<close> than \<open>s\<close> was below it.
\<close>

lemma towards:
  assumes "representable \<bar>s\<bar>" and "representable \<bar>c\<bar>" and "s < c"
    and "s \<le> w" and "w \<le> s + round_mag (c - s)"
  shows "s \<le> rnd w" and "rnd w - c < c - s"
proof -
  show "s \<le> rnd w" using assms(1,4) by (rule rnd_ge_double)
  show "rnd w - c < c - s"
  proof (cases "representable (c - s)")
    case True
    then have "round_mag (c - s) = c - s" by (simp add: representable_def)
    with assms(5) have "w \<le> c" by simp
    with assms(2) have "rnd w \<le> c" by (rule rnd_le_double)
    with assms(3) show ?thesis by simp
  next
    case False
    define D where "D = c - s"
    note big = difference_large [OF assms(1-3) False, folded D_def]
    from assms(3) have dpos: "0 < D" by (simp add: D_def)
    have c: "c = s + D" by (simp add: D_def)
    have m: "(2::real) powi (- 1022) \<le> 2 powi (- 1021)"
      by (intro power_int_increasing) simp_all
    with big(3) have d1: "2 powi (- 1022) \<le> D" by linarith
    define E where "E = D / 2 ^ 53"
    from dpos have E: "0 < E" "5 * E < D" by (simp_all add: E_def)
    have "\<bar>rnd D - D\<bar> \<le> D / 2 ^ 53"
      using dpos d1 by (intro rnd_error) simp_all
    moreover from dpos have "rnd D = round_mag D" by (simp add: rnd_nonneg)
    ultimately have t: "round_mag D \<le> D + E"
      unfolding E_def [symmetric] by linarith
    from big(1) have sb: "- (2 * D) < s" "s < 2 * D" by (simp_all add: abs_less_iff)
    from assms(5) have w: "w \<le> s + round_mag D" by (simp add: D_def)
    have "- (4 * D) \<le> w" using assms(4) sb(1) dpos by linarith
    moreover have "w \<le> 4 * D" using w t sb(2) E by linarith
    ultimately have "\<bar>w\<bar> \<le> 4 * D" by (simp add: abs_le_iff)
    moreover from d1 dpos have "2 powi (- 1022) \<le> 4 * D" by linarith
    ultimately have "\<bar>rnd w - w\<bar> \<le> 4 * D / 2 ^ 53" by (rule rnd_error)
    moreover have "4 * D / 2 ^ 53 = 4 * E" by (simp add: E_def)
    ultimately have "rnd w \<le> w + 4 * E" by linarith
    with w t E have "rnd w - (s + D) < D" by linarith
    then show ?thesis by (simp add: D_def)
  qed
qed

lemma shrink:
  assumes "0 \<le> m" and "1 \<le> (b::real)"
  shows "0 \<le> m / b" and "m / b \<le> m"
proof -
  from assms show "0 \<le> m / b" by simp
  from assms have "1 * m \<le> b * m" by (intro mult_right_mono) simp_all
  with assms(2) show "m / b \<le> m" by (simp add: pos_divide_le_eq mult.commute)
qed

lemma step_up:
  assumes "representable \<bar>s\<bar>" and "representable \<bar>c\<bar>" and "s < c" and "1 \<le> d"
    and "round_mag (c - s) < 2 ^ 1024"
  shows "s \<le> rnd (s + rnd (rnd (c - s) / d))"
    and "rnd (s + rnd (rnd (c - s) / d)) - c < c - s"
proof -
  let ?t = "round_mag (c - s)"
  from assms(3) have t: "rnd (c - s) = ?t" by (simp add: rnd_nonneg)
  from assms(3,5) have rt: "representable ?t" by (intro representable_round_mag) simp_all
  then have t0: "0 \<le> ?t" by (simp add: representable_def)
  with assms(4) have q: "0 \<le> ?t / d" "?t / d \<le> ?t"
    by (simp_all add: shrink)
  then have u: "rnd (?t / d) = round_mag (?t / d)" by (simp add: rnd_nonneg)
  have u0: "0 \<le> round_mag (?t / d)" using q(1) by (rule round_mag_nonneg)
  have u1: "round_mag (?t / d) \<le> ?t" using rt q by (rule round_mag_le_double)
  have a: "s \<le> s + round_mag (?t / d)" using u0 by simp
  have b: "s + round_mag (?t / d) \<le> s + ?t" using u1 by simp
  from towards [OF assms(1-3) a b]
  show "s \<le> rnd (s + rnd (rnd (c - s) / d))"
    and "rnd (s + rnd (rnd (c - s) / d)) - c < c - s"
    by (simp_all add: t u)
qed

lemma step_approach:
  assumes "representable \<bar>s\<bar>" and "representable \<bar>c\<bar>" and "1 \<le> d"
    and "round_mag \<bar>c - s\<bar> < 2 ^ 1024"
    and "x = rnd (s + rnd (rnd (c - s) / d))"
  shows "\<bar>x - c\<bar> \<le> \<bar>s - c\<bar>" and "x \<noteq> s \<Longrightarrow> \<bar>x - c\<bar> < \<bar>s - c\<bar>"
proof -
  have "\<bar>x - c\<bar> \<le> \<bar>s - c\<bar> \<and> (x \<noteq> s \<longrightarrow> \<bar>x - c\<bar> < \<bar>s - c\<bar>)"
  proof (cases s c rule: linorder_cases)
    case less
    with assms(4) have "round_mag (c - s) < 2 ^ 1024" by simp
    from step_up [OF assms(1,2) less assms(3) this] assms(5)
    have "s \<le> x" and "x - c < c - s" by simp_all
    with less show ?thesis by (auto simp add: abs_if)
  next
    case equal
    with assms(1,3,5) have "x = s" by (simp add: rnd_zero rnd_double)
    with equal show ?thesis by simp
  next
    case greater
    then have lt: "- s < - c" by simp
    from greater assms(4) have "round_mag (- c - - s) < 2 ^ 1024" by simp
    moreover from assms(1,2) have "representable \<bar>- s\<bar>" and "representable \<bar>- c\<bar>" by simp_all
    ultimately have "- s \<le> rnd (- s + rnd (rnd (- c - - s) / d))"
      and "rnd (- s + rnd (rnd (- c - - s) / d)) - - c < - c - - s"
      using step_up [of "- s" "- c" d] lt assms(3) by blast+
    moreover have "rnd (- s + rnd (rnd (- c - - s) / d)) = - x"
    proof -
      have "rnd (- c - - s) = - rnd (c - s)"
        using rnd_uminus [of "c - s"] by simp
      then have "rnd (rnd (- c - - s) / d) = - rnd (rnd (c - s) / d)"
        using rnd_uminus [of "rnd (c - s) / d"] by simp
      then have "rnd (- s + rnd (rnd (- c - - s) / d)) = - rnd (s + rnd (rnd (c - s) / d))"
        using rnd_uminus [of "s + rnd (rnd (c - s) / d)"] by simp
      then show ?thesis by (simp only: assms(5))
    qed
    ultimately have "x \<le> s" and "c - x < s - c" by simp_all
    with greater show ?thesis by (auto simp add: abs_if)
  qed
  then show "\<bar>x - c\<bar> \<le> \<bar>s - c\<bar>" and "x \<noteq> s \<Longrightarrow> \<bar>x - c\<bar> < \<bar>s - c\<bar>" by simp_all
qed

lemma round_double_finite:
  assumes "isfinite (round_double sg x)"
  shows "round_double sg x = Num sg (round_mag x)" and "round_mag x < 2 ^ 1024"
  using assms by (simp_all add: round_double_def Let_def split: if_splits)

lemma sval_rnd: "v \<noteq> 0 \<Longrightarrow> sval (v < 0) (round_mag \<bar>v\<bar>) = rnd v"
  by (simp add: sval_def rnd_def)

lemma val_dadd:
  assumes "isfinite (dadd (Num s a) (Num t b))"
  shows "val (dadd (Num s a) (Num t b)) = rnd (sval s a + sval t b)"
proof (cases "sval s a + sval t b = 0")
  case True
  then show ?thesis by (simp add: rnd_zero sval_zero)
next
  case False
  with assms have "isfinite (round_double (sval s a + sval t b < 0) \<bar>sval s a + sval t b\<bar>)"
    by (simp add: Let_def)
  from round_double_finite(1) [OF this] False show ?thesis
    by (simp add: Let_def sval_rnd)
qed

lemma val_dsub:
  assumes "isfinite (dsub (Num s a) (Num t b))"
  shows "val (dsub (Num s a) (Num t b)) = rnd (sval s a - sval t b)"
  using val_dadd [of s a "\<not> t" b] assms by (simp add: dsub_def sval_not)

lemma dsub_no_overflow:
  assumes "isfinite (dsub (Num s a) (Num t b))"
  shows "round_mag \<bar>sval s a - sval t b\<bar> < 2 ^ 1024"
proof (cases "sval s a - sval t b = 0")
  case True
  then show ?thesis by (simp add: round_mag_zero)
next
  case False
  with assms have "isfinite (round_double (sval s a - sval t b < 0) \<bar>sval s a - sval t b\<bar>)"
    by (simp add: dsub_def Let_def sval_not)
  from round_double_finite(2) [OF this] show ?thesis .
qed

lemma ddiv_slow:
  assumes "representable m" and "1 \<le> b"
  shows "isfinite (ddiv (Num sg m) (Num False b))"
    and "val (ddiv (Num sg m) (Num False b)) = rnd (sval sg m / b)"
proof -
  from assms have m: "0 \<le> m" "m < 2 ^ 1024" by (simp_all add: representable_def)
  with assms(2) have q: "0 \<le> m / b" "m / b \<le> m"
    by (simp_all add: shrink)
  have "round_mag (m / b) \<le> m" using assms(1) q by (rule round_mag_le_double)
  with m have f: "round_mag (m / b) < 2 ^ 1024" by linarith
  with assms(2) have e: "ddiv (Num sg m) (Num False b) = Num sg (round_mag (m / b))"
    by (simp add: round_double_def)
  then show "isfinite (ddiv (Num sg m) (Num False b))" by simp
  have v: "val (ddiv (Num sg m) (Num False b)) = sval sg (round_mag (m / b))"
    by (simp only: e val.simps)
  show "val (ddiv (Num sg m) (Num False b)) = rnd (sval sg m / b)"
  proof (cases "sg \<and> m \<noteq> 0")
    case True
    with m assms(2) have "0 < m / b" by simp
    with True show ?thesis unfolding v by (simp add: sval_def rnd_def)
  next
    case False
    with q show ?thesis unfolding v by (auto simp add: sval_def rnd_def round_mag_zero)
  qed
qed

lemma update_val:
  assumes "valid_double s" and "isfinite s" and "valid_double c" and "isfinite c"
    and "valid_double d" and "isfinite d" and "1 \<le> val d"
    and "isfinite (dsub c s)" and "isfinite (dadd s (ddiv (dsub c s) d))"
  shows "val (dadd s (ddiv (dsub c s) d)) = rnd (val s + rnd (rnd (val c - val s) / val d))"
    and "round_mag \<bar>val c - val s\<bar> < 2 ^ 1024"
proof -
  from assms(2) obtain ss sm where s: "s = Num ss sm" by (cases s) simp_all
  from assms(4) obtain cs cm where c: "c = Num cs cm" by (cases c) simp_all
  from assms(6) obtain ds b where d: "d = Num ds b" by (cases d) simp_all
  from assms(5,7) d have b: "1 \<le> b" and ds: "ds = False"
    by (auto simp add: sval_def representable_def split: if_splits)
  from assms(8) obtain sg m where D: "dsub c s = Num sg m" by (cases "dsub c s") simp_all
  have "valid_double (dsub c s)" by (rule valid_dsub)
  with D have m: "representable m" by simp
  from assms(8) have vD: "val (dsub c s) = rnd (val c - val s)"
    unfolding s c by (simp add: val_dsub)
  from ddiv_slow [OF m b, of sg] D d ds
  have Q: "isfinite (ddiv (dsub c s) d)"
    and vQ: "val (ddiv (dsub c s) d) = rnd (val (dsub c s) / val d)"
    by (simp_all add: sval_def)
  from Q obtain qs qm where q: "ddiv (dsub c s) d = Num qs qm"
    by (cases "ddiv (dsub c s) d") simp_all
  from assms(9) have "isfinite (dadd s (Num qs qm))" by (simp only: q)
  then have "isfinite (dadd (Num ss sm) (Num qs qm))" by (simp only: s)
  then have "val (dadd (Num ss sm) (Num qs qm)) = rnd (sval ss sm + sval qs qm)"
    by (rule val_dadd)
  then have "val (dadd s (Num qs qm)) = rnd (val s + val (Num qs qm))"
    by (simp add: s)
  then have "val (dadd s (ddiv (dsub c s) d)) = rnd (val s + val (ddiv (dsub c s) d))"
    by (simp only: q)
  then show "val (dadd s (ddiv (dsub c s) d)) = rnd (val s + rnd (rnd (val c - val s) / val d))"
    by (simp only: vQ vD)
  from assms(8) show "round_mag \<bar>val c - val s\<bar> < 2 ^ 1024"
    unfolding s c using dsub_no_overflow [of cs cm ss sm] by simp
qed

lemma round_mag_third: "round_mag (1 / 3) = 6004799503160661 / 18014398509481984"
  by code_simp

lemma ddiv_slow_eq:
  assumes "representable m" and "1 \<le> b"
  shows "ddiv (Num sg m) (Num False b) = Num sg (round_mag (m / b))"
proof -
  from assms have m: "0 \<le> m" "m < 2 ^ 1024" by (simp_all add: representable_def)
  with assms(2) have q: "0 \<le> m / b" "m / b \<le> m" by (simp_all add: shrink)
  have "round_mag (m / b) \<le> m" using assms(1) q by (rule round_mag_le_double)
  with m have "round_mag (m / b) < 2 ^ 1024" by linarith
  with assms(2) show ?thesis by (simp add: round_double_def)
qed

lemma dadd_zero_left:
  assumes "representable m" and "m \<noteq> 0"
  shows "dadd (Num False 0) (Num t m) = Num t m"
proof -
  from assms have pos: "0 < m" by (simp add: representable_def)
  then have n: "sval t m < 0 \<longleftrightarrow> t" and m: "\<bar>sval t m\<bar> = m"
    by (simp_all add: sval_def)
  from assms(2) have "dadd (Num False 0) (Num t m) = round_double (sval t m < 0) \<bar>sval t m\<bar>"
    by (simp add: sval_zero sval_eq_0 Let_def)
  also have "\<dots> = round_double t m" by (simp only: n m)
  also have "\<dots> = Num t m" using assms(1) by (rule round_double_representable)
  finally show ?thesis .
qed

lemma representable_3: "representable 3"
  using representable_grid [of 3 0] by simp

lemma representable_three_quarters: "representable (3 / 4)"
  using representable_grid [of 3 "- 2"] by simp

lemma representable_nine_sixteenths: "representable (9 / 16)"
  using representable_grid [of 9 "- 4"] by simp

lemma representable_third: "representable (6004799503160661 / 18014398509481984)"
  using representable_grid [of 6004799503160661 "- 54"] by simp

lemma step_0_1_3:
  "dadd (Num False 0) (ddiv (dsub (Num False 1) (Num False 0)) (Num False 3))
     = Num False (6004799503160661 / 18014398509481984)"
proof -
  have "dsub (Num False 1) (Num False 0) = Num False 1"
    by (simp add: dsub_def sval_def round_double_representable representable_1)
  moreover have "ddiv (Num False 1) (Num False 3) = Num False (round_mag (1 / 3))"
    by (rule ddiv_slow_eq) (simp_all add: representable_1)
  moreover have "dadd (Num False 0) (Num False (6004799503160661 / 18014398509481984))
      = Num False (6004799503160661 / 18014398509481984)"
    by (rule dadd_zero_left) (simp_all add: representable_third)
  ultimately show ?thesis by (simp only: round_mag_third)
qed

lemma step_0_3_three_quarters:
  "dadd (Num False 0) (ddiv (dsub (Num False 3) (Num False 0)) (Num False (3 / 4))) = Num False 4"
  by (simp add: dsub_def sval_def round_double_representable representable_3 representable_4)

lemma round_half_even_16_9: "round_half_even (16 / 9) = 2"
  by (simp add: round_half_even_def)

lemma representable_two_denorm_min: "representable (2 * denorm_min)"
  using representable_grid [of 2 "- 1074"] by (simp add: denorm_min_def)

lemma round_denorm_min_16_9: "round_double s (denorm_min / (9 / 16)) = Num s (2 * denorm_min)"
proof -
  let ?x = "denorm_min / (9 / 16)"
  have x: "?x = 16 / 9 * denorm_min" by simp
  have "?x < 2 * denorm_min" using denorm_min_pos by simp
  also have "\<dots> = 2 powi (- 1073)"
  proof -
    have "(2::real) powi (- 1073) = 2 powi (- 1074) * 2 ^ 1"
      by (rule two_powi_shift) simp
    then show ?thesis by (simp add: denorm_min_def)
  qed
  also have "\<dots> \<le> 2 powi (- 1022)" by (intro power_int_increasing) simp_all
  finally have "quantum ?x = denorm_min"
    unfolding denorm_min_def [symmetric]
    using denorm_min_pos by (subst quantum_subnormal) (simp_all add: denorm_min_def)
  moreover have "?x / denorm_min = 16 / 9"
    using denorm_min_pos by simp
  ultimately have r: "round_mag ?x = 2 * denorm_min"
    by (simp add: round_mag_def round_half_even_16_9)
  have "2 * denorm_min < 2 ^ 1024"
    using representable_two_denorm_min by (simp add: representable_def)
  with r show ?thesis by (simp add: round_double_def)
qed

lemma step_0_min_9_16:
  "dadd (Num False 0) (ddiv (dsub (Num False denorm_min) (Num False 0)) (Num False (9 / 16)))
     = Num False (2 * denorm_min)"
proof -
  have "dsub (Num False denorm_min) (Num False 0) = Num False denorm_min"
    using denorm_min_pos
    by (simp add: dsub_def sval_def round_double_representable representable_denorm_min)
  moreover have "ddiv (Num False denorm_min) (Num False (9 / 16)) = Num False (2 * denorm_min)"
    using round_denorm_min_16_9 [of False] by simp
  moreover have "dadd (Num False 0) (Num False (2 * denorm_min)) = Num False (2 * denorm_min)"
    using denorm_min_pos by (intro dadd_zero_left representable_two_denorm_min) simp
  ultimately show ?thesis by (simp only:)
qed

lemma huge_pos: "0 < huge"
  by (simp add: huge_def)

lemma representable_huge: "representable huge"
  using representable_grid [of "2 ^ 52" 971] by (simp add: huge_def)

lemma round_mag_overflow:
  assumes "2 ^ 1024 \<le> y"
  shows "2 ^ 1024 \<le> round_mag y"
proof -
  from assms have pos: "0 < y" by (smt (verit) zero_less_power)
  have "1024 \<le> ilog2 y"
  proof (rule ccontr)
    assume "\<not> 1024 \<le> ilog2 y"
    then have "(2::real) powi (ilog2 y + 1) \<le> 2 powi 1024"
      by (intro power_int_increasing) simp_all
    with ilog2_upper [OF pos] assms show False by simp
  qed
  then have n: "- 1022 \<le> ilog2 y" and m: "(1024::int) \<le> ilog2 y" by simp_all
  have a: "(2::real) powi 1024 \<le> 2 powi (ilog2 y)"
    by (rule power_int_increasing [OF m]) simp
  have b: "(2::real) powi 1024 = 2 ^ 1024"
    by (simp only: power_int_numeral)
  from round_mag_ge_bottom [OF pos n] a b show ?thesis by linarith
qed

lemma step_overflow:
  "dadd (Num True huge) (ddiv (dsub (Num False huge) (Num True huge)) (Num False 2)) = Infty False"
proof -
  have "2 ^ 1024 \<le> round_mag (2 * huge)"
    by (rule round_mag_overflow) (simp add: huge_def)
  then have "round_double False (2 * huge) = Infty False"
    by (simp add: round_double_def)
  then have "dsub (Num False huge) (Num True huge) = Infty False"
    using huge_pos by (simp add: dsub_def sval_def)
  then show ?thesis by simp
qed

text \<open>
  C3 as stated fails: with the slowdown 1/4, the state 0 and the command 1, \<^verbatim>\<open>read\<close> moves
  the state to 4, away from the command; with the slowdown 2, the state 0 and the
  smallest positive double as command, the quotient rounds to 0 and the state stays where
  it is, no closer to the command; and with the slowdown 9/16, greater than 1/2, the same
  state and command, the quotient rounds up to twice the command and the state changes
  without coming closer. And with the slowdown 2, the state \<open>- 2 ^ 1023\<close> and the command
  \<open>2 ^ 1023\<close>, the subtraction overflows and the state becomes infinite.
\<close>

theorem read_approaches_counterexample:
  "valid_double (Num False (1 / 4)) \<and> \<not> deq (Num False 0) (Num False 1) \<and>
   state_after (read (rrbot (Num False 0) (Num False 1) (Num False (1 / 4)))) = Some (Num False 4) \<and>
   \<not> \<bar>val (Num False 4) - val (Num False 1)\<bar> < \<bar>val (Num False 0) - val (Num False 1)\<bar> \<and>
   valid_double (Num False denorm_min) \<and>
   \<not> deq (Num False 0) (Num False denorm_min) \<and>
   state_after (read (rrbot (Num False 0) (Num False denorm_min) (Num False 2)))
     = Some (Num False 0) \<and>
   valid_double (Num False (9 / 16)) \<and> 1 / 2 < val (Num False (9 / 16)) \<and>
   state_after (read (rrbot (Num False 0) (Num False denorm_min) (Num False (9 / 16))))
     = Some (Num False (2 * denorm_min)) \<and>
   \<not> deq (Num False (2 * denorm_min)) (Num False 0) \<and>
   \<not> \<bar>val (Num False (2 * denorm_min)) - val (Num False denorm_min)\<bar>
       < \<bar>val (Num False 0) - val (Num False denorm_min)\<bar> \<and>
   valid_double (Num True huge) \<and> valid_double (Num False huge) \<and> 1 \<le> val (Num False 2) \<and>
   state_after (read (rrbot (Num True huge) (Num False huge) (Num False 2))) = Some (Infty False) \<and>
   \<not> isfinite (Infty False)"
proof -
  have "state_after (read (rrbot (Num False 0) (Num False 1) (Num False (1 / 4)))) = Some (Num False 4)"
    by (simp add: read_state rrbot_joints) (simp only: rrbot_def RRBotModularJoint.simps step_0_1_quarter)
  moreover have "state_after (read (rrbot (Num False 0) (Num False denorm_min) (Num False 2)))
     = Some (Num False 0)"
    by (simp add: read_state rrbot_joints) (simp only: rrbot_def RRBotModularJoint.simps step_0_min_2)
  moreover have "state_after (read (rrbot (Num False 0) (Num False denorm_min) (Num False (9 / 16))))
     = Some (Num False (2 * denorm_min))"
    by (simp add: read_state rrbot_joints) (simp only: rrbot_def RRBotModularJoint.simps step_0_min_9_16)
  moreover have "state_after (read (rrbot (Num True huge) (Num False huge) (Num False 2)))
     = Some (Infty False)"
    by (simp add: read_state rrbot_joints) (simp only: rrbot_def RRBotModularJoint.simps step_overflow)
  ultimately show ?thesis
    using denorm_min_pos
    by (simp add: sval_def representable_denorm_min representable_quarter
        representable_nine_sixteenths representable_huge)
qed

lemma approach:
  fixes s c d :: real
  assumes "1 / 2 < d" and "s \<noteq> c"
  shows "\<bar>s + (c - s) / d - c\<bar> < \<bar>s - c\<bar>"
proof -
  from assms(1) have d: "0 < d" by simp
  have "s + (c - s) / d - c = (s - c) * (1 - 1 / d)"
    using d by (simp add: field_simps)
  moreover have "\<bar>1 - 1 / d\<bar> < 1"
  proof -
    from d have "0 < 1 / d" by simp
    moreover from assms(1) d have "1 / d < 2" by (simp add: field_simps)
    ultimately show ?thesis by (simp add: abs_less_iff)
  qed
  moreover from assms(2) have "0 < \<bar>s - c\<bar>" by simp
  ultimately show ?thesis
    by (simp add: abs_mult)
qed

text \<open>
  C3, as amended. State, command and slowdown are finite doubles. When the slowdown is at
  least 1 and neither the subtraction nor the addition of the update overflows, \<^verbatim>\<open>read\<close>
  never takes the state farther from the command, and brings it strictly closer unless
  the new state equals the old one (the increment was rounded away, or state and command
  were equal). When the slowdown is only greater than 1/2, the same holds strictly
  whenever the three operations of the update are exact.
\<close>

theorem read_approaches:
  assumes "joints (info this) \<noteq> []"
    and "valid_double (hw_joint_state this)" and "isfinite (hw_joint_state this)"
    and "valid_double (hw_joint_command this)" and "isfinite (hw_joint_command this)"
    and "valid_double (hw_slowdown this)" and "isfinite (hw_slowdown this)"
  shows "(1 \<le> val (hw_slowdown this) \<and>
          isfinite (dsub (hw_joint_command this) (hw_joint_state this)) \<and>
          isfinite (dadd (hw_joint_state this)
                      (ddiv (dsub (hw_joint_command this) (hw_joint_state this))
                         (hw_slowdown this))) \<longrightarrow>
          (\<exists>x. state_after (read this) = Some x \<and> isfinite x \<and>
             \<bar>val x - val (hw_joint_command this)\<bar>
               \<le> \<bar>val (hw_joint_state this) - val (hw_joint_command this)\<bar> \<and>
             (val x \<noteq> val (hw_joint_state this) \<longrightarrow>
                \<bar>val x - val (hw_joint_command this)\<bar>
                  < \<bar>val (hw_joint_state this) - val (hw_joint_command this)\<bar>))) \<and>
         (1 / 2 < val (hw_slowdown this) \<and>
          exact (dsub (hw_joint_command this) (hw_joint_state this))
            (val (hw_joint_command this) - val (hw_joint_state this)) \<and>
          exact (ddiv (dsub (hw_joint_command this) (hw_joint_state this)) (hw_slowdown this))
            (val (dsub (hw_joint_command this) (hw_joint_state this)) / val (hw_slowdown this)) \<and>
          exact (dadd (hw_joint_state this)
                   (ddiv (dsub (hw_joint_command this) (hw_joint_state this)) (hw_slowdown this)))
            (val (hw_joint_state this) +
             val (ddiv (dsub (hw_joint_command this) (hw_joint_state this))
                    (hw_slowdown this))) \<longrightarrow>
          (\<exists>x. state_after (read this) = Some x \<and> isfinite x \<and>
             (val (hw_joint_state this) \<noteq> val (hw_joint_command this) \<longrightarrow>
                \<bar>val x - val (hw_joint_command this)\<bar>
                  < \<bar>val (hw_joint_state this) - val (hw_joint_command this)\<bar>) \<and>
             (val (hw_joint_state this) = val (hw_joint_command this) \<longrightarrow>
                val x = val (hw_joint_command this))))"
proof (intro conjI impI)
  let ?s = "hw_joint_state this" and ?c = "hw_joint_command this" and ?d = "hw_slowdown this"
  let ?x = "dadd ?s (ddiv (dsub ?c ?s) ?d)"
  have st: "state_after (read this) = Some ?x"
    by (rule read_state [OF assms(1)])
  {
    assume a: "1 \<le> val ?d \<and> isfinite (dsub ?c ?s) \<and> isfinite ?x"
    then have d: "1 \<le> val ?d" and f1: "isfinite (dsub ?c ?s)" and f2: "isfinite ?x"
      by simp_all
    note u = update_val [OF assms(2-7) d f1 f2]
    from assms(2,3) have rs: "representable \<bar>val ?s\<bar>"
      by (cases ?s) (auto simp add: sval_def representable_def)
    from assms(4,5) have rc: "representable \<bar>val ?c\<bar>"
      by (cases ?c) (auto simp add: sval_def representable_def)
    note r = step_approach [OF rs rc d u(2) u(1)]
    from st f2 r show "\<exists>x. state_after (read this) = Some x \<and> isfinite x \<and>
             \<bar>val x - val ?c\<bar> \<le> \<bar>val ?s - val ?c\<bar> \<and>
             (val x \<noteq> val ?s \<longrightarrow> \<bar>val x - val ?c\<bar> < \<bar>val ?s - val ?c\<bar>)"
      by blast
  }
  {
    assume a: "1 / 2 < val ?d \<and>
          exact (dsub ?c ?s) (val ?c - val ?s) \<and>
          exact (ddiv (dsub ?c ?s) ?d) (val (dsub ?c ?s) / val ?d) \<and>
          exact ?x (val ?s + val (ddiv (dsub ?c ?s) ?d))"
    then have v: "val ?x = val ?s + (val ?c - val ?s) / val ?d" and f: "isfinite ?x"
      and d: "1 / 2 < val ?d"
      by (simp_all add: exact_def)
    have "\<bar>val ?x - val ?c\<bar> < \<bar>val ?s - val ?c\<bar>" if "val ?s \<noteq> val ?c"
      unfolding v using d that by (rule approach)
    moreover have "val ?x = val ?c" if "val ?s = val ?c"
      unfolding v using that by simp
    ultimately show "\<exists>x. state_after (read this) = Some x \<and> isfinite x \<and>
             (val ?s \<noteq> val ?c \<longrightarrow> \<bar>val x - val ?c\<bar> < \<bar>val ?s - val ?c\<bar>) \<and>
             (val ?s = val ?c \<longrightarrow> val x = val ?c)"
      using st f by blast
  }
qed

theorem read_approaches_witness:
  "1 \<le> val (Num False 3) \<and>
   isfinite (dsub (Num False 1) (Num False 0)) \<and>
   isfinite (dadd (Num False 0) (ddiv (dsub (Num False 1) (Num False 0)) (Num False 3))) \<and>
   state_after (read (rrbot (Num False 0) (Num False 1) (Num False 3)))
     = Some (Num False (6004799503160661 / 18014398509481984)) \<and>
   \<bar>val (Num False (6004799503160661 / 18014398509481984)) - val (Num False 1)\<bar>
     < \<bar>val (Num False 0) - val (Num False 1)\<bar> \<and>
   1 / 2 < val (Num False (3 / 4)) \<and>
   exact (dsub (Num False 3) (Num False 0)) (val (Num False 3) - val (Num False 0)) \<and>
   exact (ddiv (dsub (Num False 3) (Num False 0)) (Num False (3 / 4)))
     (val (dsub (Num False 3) (Num False 0)) / val (Num False (3 / 4))) \<and>
   exact (dadd (Num False 0) (ddiv (dsub (Num False 3) (Num False 0)) (Num False (3 / 4))))
     (val (Num False 0) + val (ddiv (dsub (Num False 3) (Num False 0)) (Num False (3 / 4)))) \<and>
   state_after (read (rrbot (Num False 0) (Num False 3) (Num False (3 / 4)))) = Some (Num False 4) \<and>
   \<bar>val (Num False 4) - val (Num False 3)\<bar> < \<bar>val (Num False 0) - val (Num False 3)\<bar>"
proof -
  let ?X = "rrbot (Num False 0) (Num False 1) (Num False 3)"
  let ?Y = "rrbot (Num False 0) (Num False 3) (Num False (3 / 4))"
  let ?t = "Num False (6004799503160661 / 18014398509481984)"
  have jX: "joints (info ?X) \<noteq> []" and jY: "joints (info ?Y) \<noteq> []"
    by (simp_all add: rrbot_joints)
  have fX: "hw_joint_state ?X = Num False 0" "hw_joint_command ?X = Num False 1"
    "hw_slowdown ?X = Num False 3"
    and fY: "hw_joint_state ?Y = Num False 0" "hw_joint_command ?Y = Num False 3"
    "hw_slowdown ?Y = Num False (3 / 4)"
    by (simp_all add: rrbot_def)
  have a1: "dsub (Num False 1) (Num False 0) = Num False 1"
    by (simp add: dsub_def sval_def round_double_representable representable_1)
  have h1: "1 \<le> val (Num False 3)" by (simp add: sval_def)
  have h2: "isfinite (dsub (Num False 1) (Num False 0))" by (simp only: a1 isfinite.simps)
  have h3: "isfinite (dadd (Num False 0) (ddiv (dsub (Num False 1) (Num False 0)) (Num False 3)))"
    by (simp only: step_0_1_3 isfinite.simps)
  have sX: "state_after (read ?X) = Some ?t"
    by (simp only: read_state [OF jX] fX step_0_1_3)
  from read_approaches [of ?X] jX h1 h2 h3
  obtain x where x: "state_after (read ?X) = Some x"
    "val x \<noteq> val (Num False 0) \<longrightarrow>
       \<bar>val x - val (Num False 1)\<bar> < \<bar>val (Num False 0) - val (Num False 1)\<bar>"
    by (simp only: fX) (auto simp add: representable_0 representable_1 representable_3)
  from x(1) sX have "x = ?t" by simp
  moreover have "val ?t \<noteq> val (Num False 0)" by (simp add: sval_def)
  ultimately have cX: "\<bar>val ?t - val (Num False 1)\<bar> < \<bar>val (Num False 0) - val (Num False 1)\<bar>"
    using x(2) by simp
  have b1: "dsub (Num False 3) (Num False 0) = Num False 3"
    by (simp add: dsub_def sval_def round_double_representable representable_3)
  have b2: "ddiv (Num False 3) (Num False (3 / 4)) = Num False 4"
    by (simp add: round_double_representable representable_4)
  have b3: "dadd (Num False 0) (Num False 4) = Num False 4"
    by (simp add: sval_def round_double_representable representable_4)
  have k1: "1 / 2 < val (Num False (3 / 4))" by (simp add: sval_def)
  have k2: "exact (dsub (Num False 3) (Num False 0)) (val (Num False 3) - val (Num False 0))"
    "exact (ddiv (dsub (Num False 3) (Num False 0)) (Num False (3 / 4)))
       (val (dsub (Num False 3) (Num False 0)) / val (Num False (3 / 4)))"
    "exact (dadd (Num False 0) (ddiv (dsub (Num False 3) (Num False 0)) (Num False (3 / 4))))
       (val (Num False 0) + val (ddiv (dsub (Num False 3) (Num False 0)) (Num False (3 / 4))))"
    by (simp_all only: b1 b2 b3) (simp_all add: exact_def sval_def)
  have sY: "state_after (read ?Y) = Some (Num False 4)"
    by (simp only: read_state [OF jY] fY step_0_3_three_quarters)
  from read_approaches [of ?Y] jY k1 k2
  obtain y where y: "state_after (read ?Y) = Some y"
    "val (Num False 0) \<noteq> val (Num False 3) \<longrightarrow>
       \<bar>val y - val (Num False 3)\<bar> < \<bar>val (Num False 0) - val (Num False 3)\<bar>"
    by (simp only: fY) (auto simp add: representable_0 representable_3 representable_three_quarters)
  from y(1) sY have "y = Num False 4" by simp
  moreover have "val (Num False 0) \<noteq> val (Num False 3)" by (simp add: sval_def)
  ultimately have cY: "\<bar>val (Num False 4) - val (Num False 3)\<bar>
      < \<bar>val (Num False 0) - val (Num False 3)\<bar>"
    using y(2) by simp
  from h1 h2 h3 sX cX k1 k2 sY cY show ?thesis by (intro conjI)
qed

end
